theory Spec2Isabelle
  imports Main "HOL-Library.AList" "HOL-Library.Multiset"
begin

section \<open>Data model of \<^verbatim>\<open>app.py\<close>\<close>

text \<open>
  The four role strings \<^verbatim>\<open>"Raja"\<close>, \<^verbatim>\<open>"Mantri"\<close>, \<^verbatim>\<open>"Chor"\<close>, \<^verbatim>\<open>"Sipahi"\<close> are the only
  role values the program ever stores; they are modelled as an enumeration.
\<close>

datatype role = Raja | Mantri | Chor | Sipahi

text \<open>
  The HTTP error bodies of the routes, and the two Python exceptions that the indexing
  expressions of \<^verbatim>\<open>guess_chor\<close>, \<^verbatim>\<open>result\<close> and \<^verbatim>\<open>leaderboard\<close> can raise.
  \<^item> \<open>RoomNotFound\<close>: \<^verbatim>\<open>{"error": "Room not found"}\<close>, 404
  \<^item> \<open>RoomFull\<close>: \<^verbatim>\<open>{"error": "Room full"}\<close>, 400
  \<^item> \<open>NoActiveRound\<close>: \<^verbatim>\<open>{"error": "No active round"}\<close>, 400
  \<^item> \<open>OnlyMantriCanGuess\<close>: \<^verbatim>\<open>{"error": "Only Mantri can guess"}\<close>, 403
  \<^item> \<open>NoRound\<close>: \<^verbatim>\<open>{"error": "No round"}\<close>, 400
  \<^item> \<open>KeyError\<close>, \<open>IndexError\<close>: uncaught Python exceptions
\<close>

datatype error =
  RoomNotFound | RoomFull | NoActiveRound | OnlyMantriCanGuess | NoRound
  | KeyError | IndexError

text \<open>
  A Python \<^verbatim>\<open>dict\<close> keeps its keys in insertion order; it is an association list here.
  \<open>map_of d k\<close> is \<^verbatim>\<open>d.get(k)\<close>, and \<open>AList.update k v d\<close> is \<^verbatim>\<open>d[k] = v\<close>: an
  existing key keeps its position, a new key goes to the end.
\<close>

type_synonym ('k, 'v) dict = "('k \<times> 'v) list"

text \<open>A player \<^verbatim>\<open>{"id": ..., "name": ...}\<close>.\<close>

record player =
  pid :: string
  pname :: string

text \<open>The dictionary stored under \<^verbatim>\<open>room["round"]\<close>.\<close>

record game_round =
  roles :: "(string, role) dict"
  points :: "(string, int) dict"
  completed :: bool
  guess :: "bool option"

text \<open>
  A room \<^verbatim>\<open>{"players": [...], "round": ..., "scores": {...}}\<close>; the field \<open>rnd\<close> is the
  key \<^verbatim>\<open>"round"\<close>, \<open>None\<close> until roles are assigned.
\<close>

record room =
  players :: "player list"
  rnd :: "game_round option"
  scores :: "(string, int) dict"

text \<open>The global \<^verbatim>\<open>rooms\<close> dictionary.\<close>

type_synonym rooms = "(string, room) dict"

definition MAX_PLAYERS :: nat where
  "MAX_PLAYERS = 4"

fun DEFAULT_POINTS :: "role \<Rightarrow> int" where
  "DEFAULT_POINTS Raja = 1000"
| "DEFAULT_POINTS Mantri = 800"
| "DEFAULT_POINTS Sipahi = 500"
| "DEFAULT_POINTS Chor = 0"

section \<open>Role assignment\<close>

text \<open>
  \<^verbatim>\<open>random.shuffle(roles)\<close> leaves some permutation of the four roles in \<^verbatim>\<open>roles\<close>. The
  permutation drawn is a parameter \<open>shuffled\<close> of the model; \<open>is_shuffle\<close> says that it is
  one of the lists the shuffle can produce.
\<close>

definition is_shuffle :: "role list \<Rightarrow> bool" where
  "is_shuffle shuffled \<longleftrightarrow> distinct shuffled \<and> set shuffled = {Raja, Mantri, Chor, Sipahi}"

text \<open>The loop \<^verbatim>\<open>for player, role in zip(room["players"], roles)\<close> with its two dictionaries.\<close>

fun assign_loop ::
  "(player \<times> role) list \<Rightarrow> (string, role) dict \<Rightarrow> (string, int) dict
    \<Rightarrow> (string, role) dict \<times> (string, int) dict" where
  "assign_loop [] role_map pts = (role_map, pts)"
| "assign_loop ((p, r) # rest) role_map pts =
     assign_loop rest (AList.update (pid p) r role_map)
       (AList.update (pid p) (DEFAULT_POINTS r) pts)"

definition assign_roles :: "room \<Rightarrow> role list \<Rightarrow> room" where
  "assign_roles room shuffled =
     (case assign_loop (zip (players room) shuffled) [] [] of
        (role_map, pts) \<Rightarrow>
          room\<lparr>rnd := Some \<lparr>roles = role_map, points = pts, completed = False, guess = None\<rparr>\<rparr>)"

section \<open>The routes\<close>

text \<open>
  Every route reads the global \<^verbatim>\<open>rooms\<close>; the three that mutate it return the registry
  they leave behind, also when they fail. The identifiers that \<^verbatim>\<open>generate_id()\<close> returns,
  the permutation that \<^verbatim>\<open>random.shuffle\<close> draws and the fields of the request body are
  parameters.
\<close>

definition create_room ::
  "rooms \<Rightarrow> string \<Rightarrow> string \<Rightarrow> string \<Rightarrow> (string \<times> string) \<times> rooms" where
  "create_room rooms playerName room_id player_id =
     ((room_id, player_id),
      AList.update room_id
        \<lparr>players = [\<lparr>pid = player_id, pname = playerName\<rparr>],
         rnd = None,
         scores = [(player_id, 0)]\<rparr> rooms)"

definition join_room ::
  "rooms \<Rightarrow> string \<Rightarrow> string \<Rightarrow> string \<Rightarrow> role list \<Rightarrow> (error + string) \<times> rooms" where
  "join_room rooms roomId playerName player_id shuffled =
     (case map_of rooms roomId of
        None \<Rightarrow> (Inl RoomNotFound, rooms)
      | Some room \<Rightarrow>
          if length (players room) \<ge> MAX_PLAYERS then (Inl RoomFull, rooms)
          else
            let room1 = room\<lparr>players := players room @ [\<lparr>pid = player_id, pname = playerName\<rparr>],
                             scores := AList.update player_id 0 (scores room)\<rparr>;
                room2 = (if length (players room1) = MAX_PLAYERS
                         then assign_roles room1 shuffled else room1)
            in (Inr player_id, AList.update roomId room2 rooms))"

definition list_players :: "rooms \<Rightarrow> string \<Rightarrow> error + player list" where
  "list_players rooms room_id =
     (case map_of rooms room_id of
        None \<Rightarrow> Inl RoomNotFound
      | Some room \<Rightarrow> Inr (players room))"

text \<open>\<^verbatim>\<open>my_role\<close> has no error response: it answers \<^verbatim>\<open>{"role": null}\<close> instead.\<close>

definition my_role :: "rooms \<Rightarrow> string \<Rightarrow> string \<Rightarrow> error + role option" where
  "my_role rooms room_id player_id =
     (case map_of rooms room_id of
        None \<Rightarrow> Inr None
      | Some room \<Rightarrow>
          (case rnd room of
             None \<Rightarrow> Inr None
           | Some r \<Rightarrow> Inr (map_of (roles r) player_id)))"

text \<open>
  Lines 125 to 128: the wrong guess. The list comprehension is indexed at 0
  (\<open>IndexError\<close> when no player is the Chor), \<^verbatim>\<open>points[mantri_id]\<close> is read, set to 0, and
  \<^verbatim>\<open>points[chor_id] += stolen\<close> reads the Chor's entry before it writes. The dictionary
  returned with an error is the one the exception leaves behind.
\<close>

definition transfer ::
  "(string, role) dict \<Rightarrow> (string, int) dict \<Rightarrow> string \<Rightarrow> error option \<times> (string, int) dict" where
  "transfer rls pts mantri_id =
     (case map fst (filter (\<lambda>(p, r). r = Chor) rls) of
        [] \<Rightarrow> (Some IndexError, pts)
      | chor_id # _ \<Rightarrow>
          (case map_of pts mantri_id of
             None \<Rightarrow> (Some KeyError, pts)
           | Some stolen \<Rightarrow>
               let pts1 = AList.update mantri_id 0 pts
               in (case map_of pts1 chor_id of
                     None \<Rightarrow> (Some KeyError, pts1)
                   | Some c \<Rightarrow> (None, AList.update chor_id (c + stolen) pts1))))"

text \<open>
  Lines 131 and 132: \<^verbatim>\<open>for pid, pts in points.items(): room["scores"][pid] += pts\<close>. A
  missing key stops the loop with the scores added so far.
\<close>

fun add_scores ::
  "(string, int) dict \<Rightarrow> (string, int) dict \<Rightarrow> error option \<times> (string, int) dict" where
  "add_scores [] scs = (None, scs)"
| "add_scores ((p, pts) # rest) scs =
     (case map_of scs p of
        None \<Rightarrow> (Some KeyError, scs)
      | Some s \<Rightarrow> add_scores rest (AList.update p (s + pts) scs))"

text \<open>
  The route \<^verbatim>\<open>guess_chor\<close>, in the order of its statements: the room and round check
  (line 112), \<^verbatim>\<open>roles.get(mantri_id)\<close> (line 119), the indexing \<^verbatim>\<open>roles[guessed_id]\<close> that
  raises \<open>KeyError\<close> on an unknown identifier (line 122), the transfer, the score update
  and the two flags. The room is mutated in place, so an exception raised after a write
  leaves that write in the registry. Nothing reads \<^verbatim>\<open>completed\<close>.
\<close>

definition guess_chor ::
  "rooms \<Rightarrow> string \<Rightarrow> string \<Rightarrow> string \<Rightarrow> (error + bool) \<times> rooms" where
  "guess_chor rooms room_id mantri_id guessed_id =
     (case map_of rooms room_id of
        None \<Rightarrow> (Inl NoActiveRound, rooms)
      | Some room \<Rightarrow>
          (case rnd room of
             None \<Rightarrow> (Inl NoActiveRound, rooms)
           | Some r \<Rightarrow>
               if map_of (roles r) mantri_id \<noteq> Some Mantri
               then (Inl OnlyMantriCanGuess, rooms)
               else
                 (case map_of (roles r) guessed_id of
                    None \<Rightarrow> (Inl KeyError, rooms)
                  | Some guessed_role \<Rightarrow>
                      let correct = (guessed_role = Chor);
                          (e1, pts1) = (if \<not> correct then transfer (roles r) (points r) mantri_id
                                        else (None, points r))
                      in (case e1 of
                            Some e \<Rightarrow>
                              (Inl e,
                               AList.update room_id
                                 (room\<lparr>rnd := Some (r\<lparr>points := pts1\<rparr>)\<rparr>) rooms)
                          | None \<Rightarrow>
                              (case add_scores pts1 (scores room) of
                                 (Some e, scs) \<Rightarrow>
                                   (Inl e,
                                    AList.update room_id
                                      (room\<lparr>rnd := Some (r\<lparr>points := pts1\<rparr>),
                                            scores := scs\<rparr>) rooms)
                               | (None, scs) \<Rightarrow>
                                   (Inr correct,
                                    AList.update room_id
                                      (room\<lparr>rnd := Some (r\<lparr>points := pts1, completed := True,
                                                           guess := Some correct\<rparr>),
                                            scores := scs\<rparr>) rooms))))))"

text \<open>The loop of \<^verbatim>\<open>result\<close>: one \<open>(name, role, totalScore)\<close> entry per roster player.\<close>

fun result_loop ::
  "player list \<Rightarrow> (string, role) dict \<Rightarrow> (string, int) dict
    \<Rightarrow> error + (string \<times> role option \<times> int) list" where
  "result_loop [] rls scs = Inr []"
| "result_loop (p # ps) rls scs =
     (case map_of scs (pid p) of
        None \<Rightarrow> Inl KeyError
      | Some s \<Rightarrow>
          (case result_loop ps rls scs of
             Inl e \<Rightarrow> Inl e
           | Inr res \<Rightarrow> Inr ((pname p, map_of rls (pid p), s) # res)))"

definition result :: "rooms \<Rightarrow> string \<Rightarrow> error + (string \<times> role option \<times> int) list" where
  "result rooms room_id =
     (case map_of rooms room_id of
        None \<Rightarrow> Inl NoRound
      | Some room \<Rightarrow>
          (case rnd room of
             None \<Rightarrow> Inl NoRound
           | Some r \<Rightarrow> result_loop (players room) (roles r) (scores room)))"

text \<open>The loop of \<^verbatim>\<open>leaderboard\<close>: one \<open>(name, score)\<close> entry per roster player.\<close>

fun board_loop :: "player list \<Rightarrow> (string, int) dict \<Rightarrow> error + (string \<times> int) list" where
  "board_loop [] scs = Inr []"
| "board_loop (p # ps) scs =
     (case map_of scs (pid p) of
        None \<Rightarrow> Inl KeyError
      | Some s \<Rightarrow>
          (case board_loop ps scs of
             Inl e \<Rightarrow> Inl e
           | Inr board \<Rightarrow> Inr ((pname p, s) # board)))"

text \<open>
  \<^verbatim>\<open>list.sort(key=..., reverse=True)\<close> reverses the list, sorts it stably in ascending
  order of the key and reverses it again.
\<close>

definition sort_reverse :: "('a \<Rightarrow> int) \<Rightarrow> 'a list \<Rightarrow> 'a list" where
  "sort_reverse key xs = rev (sort_key key (rev xs))"

definition leaderboard :: "rooms \<Rightarrow> string \<Rightarrow> error + (string \<times> int) list" where
  "leaderboard rooms room_id =
     (case map_of rooms room_id of
        None \<Rightarrow> Inl RoomNotFound
      | Some room \<Rightarrow>
          (case board_loop (players room) (scores room) of
             Inl e \<Rightarrow> Inl e
           | Inr board \<Rightarrow> Inr (sort_reverse snd board)))"

section \<open>Reachable registries and their invariant\<close>

text \<open>
  The registries the program can be in: it starts empty, and every request to one of the
  three mutating routes, whatever it answers, leaves the next one. The identifiers drawn by
  \<^verbatim>\<open>generate_id()\<close> are arbitrary here, so two players of a room may collide; the
  permutation drawn by a join is one the shuffle can produce.
\<close>

inductive reachable :: "rooms \<Rightarrow> bool" where
  init: "reachable []"
| create: "reachable rooms \<Longrightarrow> reachable (snd (create_room rooms playerName room_id player_id))"
| join: "reachable rooms \<Longrightarrow> is_shuffle shuffled
    \<Longrightarrow> reachable (snd (join_room rooms roomId playerName player_id shuffled))"
| guess: "reachable rooms \<Longrightarrow> reachable (snd (guess_chor rooms room_id mantri_id guessed_id))"

text \<open>The points a fresh round gives: each player's role looked up in the catalogue.\<close>

definition initial_points :: "(string, role) dict \<Rightarrow> (string, int) dict" where
  "initial_points rls = map (\<lambda>(p, r). (p, DEFAULT_POINTS r)) rls"

definition total_points :: "game_round \<Rightarrow> int" where
  "total_points r = sum_list (map snd (points r))"

text \<open>
  What holds of a round dealt to a roster \<open>ps\<close> of pairwise distinct identifiers: the role
  dictionary has the roster's identifiers as keys, in order, each role once; the points
  dictionary has the same keys; the points add up to 2300; and until a guess is resolved the
  points are the initial ones.
\<close>

definition round_inv :: "player list \<Rightarrow> game_round \<Rightarrow> bool" where
  "round_inv ps r \<longleftrightarrow>
     map fst (roles r) = map pid ps \<and>
     distinct (map snd (roles r)) \<and>
     set (map snd (roles r)) = {Raja, Mantri, Chor, Sipahi} \<and>
     map fst (points r) = map fst (roles r) \<and>
     total_points r = 2300 \<and>
     (\<not> completed r \<longrightarrow> points r = initial_points (roles r) \<and> guess r = None)"

text \<open>
  What holds of every room of a reachable registry: at most four players, each with a score
  entry; a round exactly when the roster is full; the keys of the round's two dictionaries
  agree and are identifiers of the roster; and \<open>round_inv\<close> when the roster's identifiers
  are pairwise distinct.
\<close>

definition room_inv :: "room \<Rightarrow> bool" where
  "room_inv room \<longleftrightarrow>
     length (players room) \<le> 4 \<and>
     set (map pid (players room)) \<subseteq> set (map fst (scores room)) \<and>
     (case rnd room of
        None \<Rightarrow> length (players room) < 4
      | Some r \<Rightarrow>
          length (players room) = 4 \<and>
          distinct (map fst (roles r)) \<and>
          map fst (points r) = map fst (roles r) \<and>
          set (map fst (roles r)) \<subseteq> set (map pid (players room)) \<and>
          (distinct (map pid (players room)) \<longrightarrow> round_inv (players room) r))"

text \<open>The part of a room that \<^verbatim>\<open>guess_chor\<close> has no statement to change.\<close>

definition guess_frame ::
  "room \<Rightarrow> player list \<times> (string, role) dict option \<times> string list option \<times> string list" where
  "guess_frame room =
     (players room, map_option roles (rnd room),
      map_option (\<lambda>r. map fst (points r)) (rnd room), map fst (scores room))"

section \<open>A game of four\<close>

text \<open>
  Asha creates room \<open>r1\<close>; Bala, Chitra and Dev join; the shuffle leaves the roles in the
  order Raja, Mantri, Chor, Sipahi, so Bala is the Mantri and Chitra the Chor.
\<close>

definition room_of_three :: rooms where
  "room_of_three =
     snd (join_room (snd (join_room (snd (create_room [] ''Asha'' ''r1'' ''a''))
       ''r1'' ''Bala'' ''b'' [Raja, Mantri, Chor, Sipahi]))
       ''r1'' ''Chitra'' ''c'' [Raja, Mantri, Chor, Sipahi])"

definition room_of_four :: rooms where
  "room_of_four = snd (join_room room_of_three ''r1'' ''Dev'' ''d'' [Raja, Mantri, Chor, Sipahi])"

definition players_of_four :: "player list" where
  "players_of_four =
     [\<lparr>pid = ''a'', pname = ''Asha''\<rparr>, \<lparr>pid = ''b'', pname = ''Bala''\<rparr>,
      \<lparr>pid = ''c'', pname = ''Chitra''\<rparr>, \<lparr>pid = ''d'', pname = ''Dev''\<rparr>]"

definition roles_of_four :: "(string, role) dict" where
  "roles_of_four = [(''a'', Raja), (''b'', Mantri), (''c'', Chor), (''d'', Sipahi)]"

definition round_of_four :: game_round where
  "round_of_four =
     \<lparr>roles = roles_of_four,
      points = [(''a'', 1000), (''b'', 800), (''c'', 0), (''d'', 500)],
      completed = False, guess = None\<rparr>"

definition the_room_of_four :: room where
  "the_room_of_four =
     \<lparr>players = players_of_four, rnd = Some round_of_four,
      scores = [(''a'', 0), (''b'', 0), (''c'', 0), (''d'', 0)]\<rparr>"

definition the_room_of_three :: room where
  "the_room_of_three =
     \<lparr>players = [\<lparr>pid = ''a'', pname = ''Asha''\<rparr>, \<lparr>pid = ''b'', pname = ''Bala''\<rparr>,
                 \<lparr>pid = ''c'', pname = ''Chitra''\<rparr>],
      rnd = None, scores = [(''a'', 0), (''b'', 0), (''c'', 0)]\<rparr>"

text \<open>Bala accuses Chitra, rightly; \<open>after_first_guess\<close> is the registry that leaves.\<close>

definition after_first_guess :: rooms where
  "after_first_guess = snd (guess_chor room_of_four ''r1'' ''b'' ''c'')"

text \<open>Had Bala accused Asha instead, the round and the room would be these.\<close>

definition round_after_wrong_guess :: game_round where
  "round_after_wrong_guess =
     \<lparr>roles = roles_of_four,
      points = [(''a'', 1000), (''b'', 0), (''c'', 800), (''d'', 500)],
      completed = True, guess = Some False\<rparr>"

definition room_after_wrong_guess :: room where
  "room_after_wrong_guess =
     \<lparr>players = players_of_four, rnd = Some round_after_wrong_guess,
      scores = [(''a'', 1000), (''b'', 0), (''c'', 800), (''d'', 500)]\<rparr>"

text \<open>A room of the same four players whose cumulative scores tie in pairs.\<close>

definition tied_room :: room where
  "tied_room = the_room_of_four\<lparr>scores := [(''a'', 500), (''b'', 800), (''c'', 500), (''d'', 800)]\<rparr>"

definition tied_rooms :: rooms where
  "tied_rooms = [(''r1'', tied_room)]"


section \<open>Dictionaries as association lists\<close>

lemma update_fresh_append:
  "k \<notin> fst ` set al \<Longrightarrow> AList.update k v al = al @ [(k, v)]"
  by (induction al) auto

lemma update_present_keys:
  "map_of al k = Some old \<Longrightarrow> map fst (AList.update k v al) = map fst al"
  by (induction al) (auto split: if_splits)

lemma update_sum:
  "map_of al k = Some old \<Longrightarrow>
    sum_list (map snd (AList.update k v al)) = sum_list (map snd al) - old + (v :: int)"
  by (induction al) (auto split: if_splits)

lemma map_of_keys_None: "map_of al k = None \<longleftrightarrow> k \<notin> set (map fst al)"
  by (simp add: map_of_eq_None_iff)

lemma map_of_value_in:
  "k \<in> set (map fst al) \<Longrightarrow> the (map_of al k) \<in> set (map snd al)"
  by (induction al) auto

lemma alist_inj_on:
  "distinct (map snd al) \<Longrightarrow> inj_on (\<lambda>k. the (map_of al k)) (set (map fst al))"
proof (induction al)
  case Nil
  then show ?case by simp
next
  case (Cons x al)
  obtain k v where x: "x = (k, v)" by (cases x)
  from Cons have IH: "inj_on (\<lambda>k. the (map_of al k)) (set (map fst al))"
    and v: "v \<notin> set (map snd al)"
    using x by simp_all
  show ?case
  proof (rule inj_onI)
    fix a b
    assume a: "a \<in> set (map fst (x # al))" and b: "b \<in> set (map fst (x # al))"
      and eq: "the (map_of (x # al) a) = the (map_of (x # al) b)"
    show "a = b"
    proof (cases "a = k")
      case ak: True
      show ?thesis
      proof (cases "b = k")
        case True
        with ak show ?thesis by simp
      next
        case False
        with b x have "the (map_of al b) \<in> set (map snd al)"
          by (intro map_of_value_in) auto
        with eq ak False x v show ?thesis by auto
      qed
    next
      case ak: False
      with a x have ain: "a \<in> set (map fst al)" by auto
      then have av: "the (map_of al a) \<in> set (map snd al)"
        by (rule map_of_value_in)
      show ?thesis
      proof (cases "b = k")
        case True
        with eq ak x v av show ?thesis by auto
      next
        case False
        with b x have "b \<in> set (map fst al)" by auto
        with ain IH eq ak False x show ?thesis
          by (auto dest: inj_onD)
      qed
    qed
  qed
qed

lemma alist_image:
  "distinct (map fst al) \<Longrightarrow> (\<lambda>k. the (map_of al k)) ` set (map fst al) = set (map snd al)"
proof (induction al)
  case Nil
  then show ?case by simp
next
  case (Cons x al)
  obtain k v where x: "x = (k, v)" by (cases x)
  from Cons.prems x have k: "k \<notin> set (map fst al)" and d: "distinct (map fst al)"
    by simp_all
  have "(\<lambda>a. the (map_of (x # al) a)) ` set (map fst al) =
      (\<lambda>a. the (map_of al a)) ` set (map fst al)"
    using k x by (intro image_cong) auto
  with Cons.IH [OF d] x show ?case by simp
qed

section \<open>Role assignment\<close>

lemma is_shuffle_mset: "is_shuffle sh \<Longrightarrow> mset sh = mset [Raja, Mantri, Chor, Sipahi]"
proof -
  assume "is_shuffle sh"
  then have "distinct sh" "set sh = set [Raja, Mantri, Chor, Sipahi]"
    by (simp_all add: is_shuffle_def)
  moreover have "distinct [Raja, Mantri, Chor, Sipahi]" by simp
  ultimately show ?thesis
    using set_eq_iff_mset_eq_distinct by blast
qed

lemma is_shuffle_length: "is_shuffle sh \<Longrightarrow> length sh = 4"
  using is_shuffle_mset [THEN arg_cong, of sh size] by simp

lemma is_shuffle_sum: "is_shuffle sh \<Longrightarrow> sum_list (map DEFAULT_POINTS sh) = 2300"
proof -
  assume "is_shuffle sh"
  then have "mset (map DEFAULT_POINTS sh) = mset (map DEFAULT_POINTS [Raja, Mantri, Chor, Sipahi])"
    by (simp only: mset_map is_shuffle_mset)
  then have "sum_mset (mset (map DEFAULT_POINTS sh)) =
      sum_mset (mset (map DEFAULT_POINTS [Raja, Mantri, Chor, Sipahi]))"
    by simp
  then show ?thesis
    by (simp only: sum_mset_sum_list) simp
qed

text \<open>Whatever the identifiers, the loop keeps the two dictionaries on the same keys.\<close>

lemma assign_loop_keys:
  "map fst rm = map fst pts \<Longrightarrow> distinct (map fst rm) \<Longrightarrow>
    map fst (fst (assign_loop zs rm pts)) = map fst (snd (assign_loop zs rm pts)) \<and>
    distinct (map fst (fst (assign_loop zs rm pts))) \<and>
    set (map fst (fst (assign_loop zs rm pts))) = set (map fst rm) \<union> set (map (pid \<circ> fst) zs)"
proof (induction zs arbitrary: rm pts)
  case Nil
  then show ?case by simp
next
  case (Cons z zs)
  obtain p r where z: "z = (p, r)" by (cases z)
  let ?rm = "AList.update (pid p) r rm"
  let ?pts = "AList.update (pid p) (DEFAULT_POINTS r) pts"
  have keys: "map fst ?rm = map fst ?pts"
    using Cons.prems(1) by (simp add: update_keys)
  have dist: "distinct (map fst ?rm)"
    using Cons.prems(2) by (rule distinct_update)
  have ins: "set (map fst ?rm) = insert (pid p) (set (map fst rm))"
    by (auto simp: update_keys)
  from Cons.IH [OF keys dist]
  have k: "map fst (fst (assign_loop zs ?rm ?pts)) = map fst (snd (assign_loop zs ?rm ?pts))"
    and d: "distinct (map fst (fst (assign_loop zs ?rm ?pts)))"
    and s: "set (map fst (fst (assign_loop zs ?rm ?pts))) =
        set (map fst ?rm) \<union> set (map (pid \<circ> fst) zs)"
    by blast+
  have step: "assign_loop (z # zs) rm pts = assign_loop zs ?rm ?pts"
    by (simp add: z)
  have "set (map fst ?rm) \<union> set (map (pid \<circ> fst) zs) =
      set (map fst rm) \<union> set (map (pid \<circ> fst) (z # zs))"
    unfolding ins by (simp add: z)
  with k d s show ?case
    unfolding step by (simp only:)
qed

text \<open>On pairwise distinct identifiers the loop zips them with the shuffled roles.\<close>

lemma assign_loop_fresh:
  "distinct (map (pid \<circ> fst) zs) \<Longrightarrow>
   set (map (pid \<circ> fst) zs) \<inter> fst ` set rm = {} \<Longrightarrow>
   fst ` set pts = fst ` set rm \<Longrightarrow>
   assign_loop zs rm pts =
     (rm @ map (\<lambda>(p, r). (pid p, r)) zs, pts @ map (\<lambda>(p, r). (pid p, DEFAULT_POINTS r)) zs)"
proof (induction zs arbitrary: rm pts)
  case Nil
  then show ?case by simp
next
  case (Cons z zs)
  obtain p r where z: "z = (p, r)" by (cases z)
  from Cons.prems z have fresh: "pid p \<notin> fst ` set rm" "pid p \<notin> fst ` set pts"
    by auto
  have "assign_loop zs (rm @ [(pid p, r)]) (pts @ [(pid p, DEFAULT_POINTS r)]) =
      ((rm @ [(pid p, r)]) @ map (\<lambda>(p, r). (pid p, r)) zs,
       (pts @ [(pid p, DEFAULT_POINTS r)]) @ map (\<lambda>(p, r). (pid p, DEFAULT_POINTS r)) zs)"
    using Cons.prems z by (intro Cons.IH) (auto simp: image_Un)
  then show ?case
    using fresh z by (simp add: update_fresh_append)
qed

lemma assign_roles_eq:
  assumes "distinct (map pid (players room))"
  shows "assign_roles room sh =
     room\<lparr>rnd := Some \<lparr>roles = zip (map pid (players room)) sh,
                        points = zip (map pid (players room)) (map DEFAULT_POINTS sh),
                        completed = False, guess = None\<rparr>\<rparr>"
proof -
  have "map (pid \<circ> fst) (zip (players room) sh) =
      take (min (length (players room)) (length sh)) (map pid (players room))"
    by (simp add: map_fst_zip_take take_map flip: map_map)
  then have "distinct (map (pid \<circ> fst) (zip (players room) sh))"
    using assms by (simp add: distinct_take)
  then have "assign_loop (zip (players room) sh) [] [] =
      (map (\<lambda>(p, r). (pid p, r)) (zip (players room) sh),
       map (\<lambda>(p, r). (pid p, DEFAULT_POINTS r)) (zip (players room) sh))"
    using assign_loop_fresh [of "zip (players room) sh" "[]" "[]"] by simp
  moreover have "map (\<lambda>(p, r). (pid p, r)) (zip (players room) sh) =
      zip (map pid (players room)) sh"
    by (simp add: zip_map1)
  moreover have "map (\<lambda>(p, r). (pid p, DEFAULT_POINTS r)) (zip (players room) sh) =
      zip (map pid (players room)) (map DEFAULT_POINTS sh)"
    by (simp add: zip_map_map)
  ultimately have "assign_loop (zip (players room) sh) [] [] =
      (zip (map pid (players room)) sh, zip (map pid (players room)) (map DEFAULT_POINTS sh))"
    by (simp only:)
  then show ?thesis
    unfolding assign_roles_def by (simp only: prod.case)
qed

lemma round_inv_fresh:
  assumes "length ps = 4" and "is_shuffle sh"
  shows "round_inv ps \<lparr>roles = zip (map pid ps) sh,
                       points = zip (map pid ps) (map DEFAULT_POINTS sh),
                       completed = False, guess = None\<rparr>"
proof -
  from assms have len: "length sh = length ps"
    by (simp add: is_shuffle_length)
  from assms(2) have "distinct sh" "set sh = {Raja, Mantri, Chor, Sipahi}"
    by (simp_all add: is_shuffle_def)
  moreover have "initial_points (zip (map pid ps) sh) = zip (map pid ps) (map DEFAULT_POINTS sh)"
    by (simp add: initial_points_def zip_map2)
  ultimately show ?thesis
    using len is_shuffle_sum [OF assms(2)] by (simp add: round_inv_def total_points_def)
qed

lemma players_assign_roles: "players (assign_roles room sh) = players room"
  by (simp add: assign_roles_def split: prod.split)

lemma scores_assign_roles: "scores (assign_roles room sh) = scores room"
  by (simp add: assign_roles_def split: prod.split)

lemma rnd_assign_roles:
  "\<exists>r. rnd (assign_roles room sh) = Some r \<and> \<not> completed r \<and> guess r = None \<and>
     distinct (map fst (roles r)) \<and> map fst (points r) = map fst (roles r) \<and>
     set (map fst (roles r)) \<subseteq> set (map pid (players room))"
proof -
  obtain rm pts where loop: "assign_loop (zip (players room) sh) [] [] = (rm, pts)"
    by (meson surj_pair)
  have "map fst (fst (rm, pts)) = map fst (snd (rm, pts)) \<and>
      distinct (map fst (fst (rm, pts))) \<and>
      set (map fst (fst (rm, pts))) =
        set (map fst ([] :: (string, role) dict)) \<union> set (map (pid \<circ> fst) (zip (players room) sh))"
    by (rule assign_loop_keys [of "[]" "[]" "zip (players room) sh", unfolded loop]) simp_all
  then have k: "map fst rm = map fst pts" and d: "distinct (map fst rm)"
    and s': "set (map fst rm) =
        set (map fst ([] :: (string, role) dict)) \<union> set (map (pid \<circ> fst) (zip (players room) sh))"
    unfolding fst_conv snd_conv by (blast, blast, blast)
  from s' have s: "set (map fst rm) = set (map (pid \<circ> fst) (zip (players room) sh))"
    by simp
  have "set (map (pid \<circ> fst) (zip (players room) sh)) \<subseteq> set (map pid (players room))"
    by (auto dest: set_zip_leftD)
  with s have sub: "set (map fst rm) \<subseteq> set (map pid (players room))"
    by simp
  have "rnd (assign_roles room sh) =
      Some \<lparr>roles = rm, points = pts, completed = False, guess = None\<rparr>"
    by (simp add: assign_roles_def loop)
  with k [symmetric] d sub show ?thesis by simp
qed


section \<open>The transfer and the score update of \<^verbatim>\<open>guess_chor\<close>\<close>

lemma transfer_keys: "map fst (snd (transfer rls pts m)) = map fst pts"
  by (auto simp: transfer_def Let_def update_present_keys split: list.splits option.splits)

lemma add_scores_keys: "map fst (snd (add_scores pts scs)) = map fst scs"
  by (induction pts scs rule: add_scores.induct)
     (auto simp: update_present_keys split: option.splits)

text \<open>The score loop ends without an exception when every key of the points has a score.\<close>

lemma add_scores_total:
  "distinct (map fst pts) \<Longrightarrow> set (map fst pts) \<subseteq> set (map fst scs) \<Longrightarrow>
   fst (add_scores pts scs) = None \<and>
   (\<forall>p. map_of (snd (add_scores pts scs)) p =
      (case map_of pts p of
         None \<Rightarrow> map_of scs p
       | Some v \<Rightarrow> map_option (\<lambda>s. s + v) (map_of scs p)))"
proof (induction pts scs rule: add_scores.induct)
  case (1 scs)
  then show ?case by simp
next
  case (2 p v rest scs)
  from "2.prems" obtain s where s: "map_of scs p = Some s"
    by (cases "map_of scs p") (auto simp: map_of_keys_None)
  have keys: "map fst (AList.update p (s + v) scs) = map fst scs"
    using s by (rule update_present_keys)
  have IH: "fst (add_scores rest (AList.update p (s + v) scs)) = None \<and>
      (\<forall>q. map_of (snd (add_scores rest (AList.update p (s + v) scs))) q =
        (case map_of rest q of
           None \<Rightarrow> map_of (AList.update p (s + v) scs) q
         | Some w \<Rightarrow> map_option (\<lambda>s. s + w) (map_of (AList.update p (s + v) scs) q)))"
    using "2.prems" s keys by (intro "2.IH") auto
  have notin: "map_of rest p = None"
    using "2.prems" by (simp add: map_of_keys_None)
  show ?case
    using IH s notin by (auto simp: update_conv' split: option.splits)
qed

lemma first_chor:
  assumes "Chor \<in> set (map snd rls)" and "distinct (map fst rls)"
  shows "\<exists>c cs. map fst (filter (\<lambda>(p, r). r = Chor) rls) = c # cs \<and> map_of rls c = Some Chor"
proof -
  from assms(1) have "filter (\<lambda>(p, r). r = Chor) rls \<noteq> []"
    by (auto simp: filter_empty_conv)
  then obtain z zs where f: "filter (\<lambda>(p, r). r = Chor) rls = z # zs"
    by (cases "filter (\<lambda>(p, r). r = Chor) rls") auto
  then have "z \<in> set (filter (\<lambda>(p, r). r = Chor) rls)"
    by simp
  then have "z \<in> set rls" "snd z = Chor"
    by auto
  then have "map_of rls (fst z) = Some Chor"
    using assms(2) by (metis map_of_is_SomeI prod.collapse)
  with f show ?thesis by auto
qed

lemma no_chor:
  "Chor \<notin> set (map snd rls) \<Longrightarrow> transfer rls pts m = (Some IndexError, pts)"
proof -
  assume "Chor \<notin> set (map snd rls)"
  then have "filter (\<lambda>(p, r). r = Chor) rls = []"
    by (force simp: filter_empty_conv)
  then show ?thesis by (simp add: transfer_def)
qed

text \<open>
  With the two dictionaries on the same keys, the transfer either finds no Chor and raises
  before it writes, or moves the Mantri's points to the Chor.
\<close>

lemma transfer_cases:
  assumes dk: "distinct (map fst rls)" and keys: "map fst pts = map fst rls"
    and m: "map_of rls m = Some Mantri"
  shows "(Chor \<notin> set (map snd rls) \<and> transfer rls pts m = (Some IndexError, pts)) \<or>
     (\<exists>c stolen pc.
        map_of rls c = Some Chor \<and> c \<noteq> m \<and>
        map_of pts m = Some stolen \<and> map_of pts c = Some pc \<and>
        transfer rls pts m = (None, AList.update c (pc + stolen) (AList.update m 0 pts)))"
proof (cases "Chor \<in> set (map snd rls)")
  case False
  then show ?thesis by (simp add: no_chor)
next
  case True
  from first_chor [OF True dk] obtain c cs where
    c: "map fst (filter (\<lambda>(p, r). r = Chor) rls) = c # cs" "map_of rls c = Some Chor"
    by (elim exE conjE)
  from c(2) m have ne: "c \<noteq> m" by auto
  have "m \<in> set (map fst pts)"
    using m keys by (metis map_of_keys_None option.distinct(1))
  then obtain stolen where st: "map_of pts m = Some stolen"
    by (cases "map_of pts m") (auto simp: map_of_keys_None)
  have "c \<in> set (map fst pts)"
    using c(2) keys by (metis map_of_keys_None option.distinct(1))
  then obtain pc where pc: "map_of pts c = Some pc"
    by (cases "map_of pts c") (auto simp: map_of_keys_None)
  have "map_of (AList.update m 0 pts) c = Some pc"
    using pc ne by (simp add: update_conv')
  then have "transfer rls pts m = (None, AList.update c (pc + stolen) (AList.update m 0 pts))"
    using c(1) st by (simp add: transfer_def)
  with c(2) ne st pc show ?thesis by blast
qed

lemma transfer_sum:
  assumes "map_of pts m = Some (stolen :: int)" and "map_of pts c = Some pc" and "c \<noteq> m"
  shows "sum_list (map snd (AList.update c (pc + stolen) (AList.update m 0 pts))) =
         sum_list (map snd pts)"
proof -
  have "map_of (AList.update m 0 pts) c = Some pc"
    using assms by (simp add: update_conv')
  from update_sum [OF this, of "pc + stolen"] update_sum [OF assms(1), of 0]
  show ?thesis by simp
qed

section \<open>\<^verbatim>\<open>guess_chor\<close> on a room that satisfies the invariant\<close>

lemma guess_chor_no_room:
  "map_of rooms rid = None \<Longrightarrow> guess_chor rooms rid m g = (Inl NoActiveRound, rooms)"
  by (simp add: guess_chor_def)

lemma guess_chor_no_round:
  "map_of rooms rid = Some room \<Longrightarrow> rnd room = None \<Longrightarrow>
    guess_chor rooms rid m g = (Inl NoActiveRound, rooms)"
  by (simp add: guess_chor_def)

lemma guess_chor_not_mantri:
  "map_of rooms rid = Some room \<Longrightarrow> rnd room = Some r \<Longrightarrow>
    map_of (roles r) m \<noteq> Some Mantri \<Longrightarrow>
    guess_chor rooms rid m g = (Inl OnlyMantriCanGuess, rooms)"
  by (simp add: guess_chor_def)

lemma guess_chor_unknown_guess:
  "map_of rooms rid = Some room \<Longrightarrow> rnd room = Some r \<Longrightarrow>
    map_of (roles r) m = Some Mantri \<Longrightarrow> map_of (roles r) g = None \<Longrightarrow>
    guess_chor rooms rid m g = (Inl KeyError, rooms)"
  by (simp add: guess_chor_def)

text \<open>
  Past the two checks and the lookup of the accused, a guess either stops at the missing
  Chor with the registry as it was, or resolves: \<open>pts'\<close> and \<open>scs'\<close> are the points and the
  scores it leaves.
\<close>

lemma guess_chor_resolved:
  assumes room: "map_of rooms rid = Some room" and r: "rnd room = Some r"
    and inv: "room_inv room"
    and m: "map_of (roles r) m = Some Mantri" and g: "map_of (roles r) g = Some gr"
  shows "(gr \<noteq> Chor \<and> Chor \<notin> set (map snd (roles r)) \<and>
      guess_chor rooms rid m g = (Inl IndexError, rooms)) \<or>
   (\<exists>pts' scs'.
     guess_chor rooms rid m g =
       (Inr (gr = Chor),
        AList.update rid
          (room\<lparr>rnd := Some (r\<lparr>points := pts', completed := True, guess := Some (gr = Chor)\<rparr>),
                scores := scs'\<rparr>) rooms) \<and>
     (gr = Chor \<longrightarrow> pts' = points r) \<and>
     (gr \<noteq> Chor \<longrightarrow>
        (\<exists>c stolen pc. map_of (roles r) c = Some Chor \<and> c \<noteq> m \<and>
           map_of (points r) m = Some stolen \<and> map_of (points r) c = Some pc \<and>
           pts' = AList.update c (pc + stolen) (AList.update m 0 (points r)))) \<and>
     map fst pts' = map fst (points r) \<and>
     sum_list (map snd pts') = sum_list (map snd (points r)) \<and>
     map fst scs' = map fst (scores room) \<and>
     (\<forall>p. map_of scs' p =
        (case map_of pts' p of
           None \<Rightarrow> map_of (scores room) p
         | Some v \<Rightarrow> map_option (\<lambda>s. s + v) (map_of (scores room) p))))"
proof (cases "gr \<noteq> Chor \<and> Chor \<notin> set (map snd (roles r))")
  case True
  then have "transfer (roles r) (points r) m = (Some IndexError, points r)"
    by (simp add: no_chor)
  then have "guess_chor rooms rid m g =
      (Inl IndexError, AList.update rid (room\<lparr>rnd := Some r\<rparr>) rooms)"
    unfolding guess_chor_def using room r m g True by (simp add: Let_def)
  moreover have "room\<lparr>rnd := Some r\<rparr> = room"
    using r by (metis room.surjective room.update_convs(2))
  moreover have "AList.update rid room rooms = rooms"
    using room by (rule update_triv)
  ultimately have "guess_chor rooms rid m g = (Inl IndexError, rooms)"
    by (simp only:)
  with True show ?thesis by blast
next
  case False
  from inv r have dk: "distinct (map fst (roles r))"
    and pkeys: "map fst (points r) = map fst (roles r)"
    and sub: "set (map fst (roles r)) \<subseteq> set (map pid (players room))"
    and skeys: "set (map pid (players room)) \<subseteq> set (map fst (scores room))"
    by (simp_all add: room_inv_def)
  define pts' where "pts' = (if gr = Chor then points r else snd (transfer (roles r) (points r) m))"
  define scs' where "scs' = snd (add_scores pts' (scores room))"
  have wrong: "\<exists>c stolen pc. map_of (roles r) c = Some Chor \<and> c \<noteq> m \<and>
           map_of (points r) m = Some stolen \<and> map_of (points r) c = Some pc \<and>
           transfer (roles r) (points r) m = (None, pts') \<and>
           pts' = AList.update c (pc + stolen) (AList.update m 0 (points r))"
    if "gr \<noteq> Chor"
    using transfer_cases [OF dk pkeys m] that False by (auto simp: pts'_def)
  have keys': "map fst pts' = map fst (points r)"
    by (simp add: pts'_def transfer_keys)
  have sum': "sum_list (map snd pts') = sum_list (map snd (points r))"
  proof (cases "gr = Chor")
    case True
    then show ?thesis by (simp add: pts'_def)
  next
    case False
    from wrong [OF False] show ?thesis
      by (auto simp: transfer_sum)
  qed
  have tot: "fst (add_scores pts' (scores room)) = None \<and>
      (\<forall>p. map_of (snd (add_scores pts' (scores room))) p =
        (case map_of pts' p of
           None \<Rightarrow> map_of (scores room) p
         | Some v \<Rightarrow> map_option (\<lambda>s. s + v) (map_of (scores room) p)))"
    using dk sub skeys by (intro add_scores_total) (simp_all add: keys' pkeys)
  then have add: "add_scores pts' (scores room) = (None, scs')"
    by (simp add: scs'_def prod_eq_iff)
  have tr: "(if gr \<noteq> Chor then transfer (roles r) (points r) m else (None, points r)) = (None, pts')"
    using wrong by (auto simp: pts'_def)
  have f1: "guess_chor rooms rid m g =
       (Inr (gr = Chor),
        AList.update rid
          (room\<lparr>rnd := Some (r\<lparr>points := pts', completed := True, guess := Some (gr = Chor)\<rparr>),
                scores := scs'\<rparr>) rooms)"
    unfolding guess_chor_def using room r m g tr add by (simp add: Let_def)
  have f2: "gr = Chor \<longrightarrow> pts' = points r"
    by (simp add: pts'_def)
  have f3: "gr \<noteq> Chor \<longrightarrow>
        (\<exists>c stolen pc. map_of (roles r) c = Some Chor \<and> c \<noteq> m \<and>
           map_of (points r) m = Some stolen \<and> map_of (points r) c = Some pc \<and>
           pts' = AList.update c (pc + stolen) (AList.update m 0 (points r)))"
    using wrong by blast
  have f6: "map fst scs' = map fst (scores room)"
    by (simp add: scs'_def add_scores_keys)
  have f7: "\<forall>p. map_of scs' p =
        (case map_of pts' p of
           None \<Rightarrow> map_of (scores room) p
         | Some v \<Rightarrow> map_option (\<lambda>s. s + v) (map_of (scores room) p))"
    using tot by (simp add: scs'_def)
  from f1 f2 f3 keys' sum' f6 f7 show ?thesis
    by - (rule disjI2, rule exI [of _ pts'], rule exI [of _ scs'], intro conjI, assumption+)
qed

text \<open>Every guess either leaves the registry as it was or resolves the round.\<close>

lemma guess_chor_step:
  assumes room: "map_of rooms rid = Some room" and inv: "room_inv room"
  shows "(\<exists>e. guess_chor rooms rid m g = (Inl e, rooms)) \<or>
     (\<exists>r pts' scs' correct.
        rnd room = Some r \<and>
        guess_chor rooms rid m g =
          (Inr correct,
           AList.update rid
             (room\<lparr>rnd := Some (r\<lparr>points := pts', completed := True, guess := Some correct\<rparr>),
                   scores := scs'\<rparr>) rooms) \<and>
        map fst pts' = map fst (points r) \<and>
        sum_list (map snd pts') = sum_list (map snd (points r)) \<and>
        map fst scs' = map fst (scores room))"
proof (cases "rnd room")
  case None
  with room show ?thesis by (simp add: guess_chor_no_round)
next
  case r: (Some r)
  show ?thesis
  proof (cases "map_of (roles r) m = Some Mantri")
    case False
    with room r show ?thesis by (simp add: guess_chor_not_mantri)
  next
    case m: True
    show ?thesis
    proof (cases "map_of (roles r) g")
      case None
      with room r m show ?thesis by (simp add: guess_chor_unknown_guess)
    next
      case gr: (Some gr)
      from guess_chor_resolved [OF room r inv m gr] show ?thesis
      proof (elim disjE conjE exE)
        assume "guess_chor rooms rid m g = (Inl IndexError, rooms)"
        then show ?thesis by blast
      next
        fix pts' scs'
        assume "guess_chor rooms rid m g =
           (Inr (gr = Chor),
            AList.update rid
              (room\<lparr>rnd := Some (r\<lparr>points := pts', completed := True,
                                   guess := Some (gr = Chor)\<rparr>),
                    scores := scs'\<rparr>) rooms)"
          and "map fst pts' = map fst (points r)"
          and "sum_list (map snd pts') = sum_list (map snd (points r))"
          and "map fst scs' = map fst (scores room)"
        with r show ?thesis by blast
      qed
    qed
  qed
qed

lemma guess_chor_failure_unchanged:
  assumes inv: "\<And>room. map_of rooms rid = Some room \<Longrightarrow> room_inv room"
    and fail: "fst (guess_chor rooms rid m g) = Inl e"
  shows "snd (guess_chor rooms rid m g) = rooms"
proof (cases "map_of rooms rid")
  case None
  then show ?thesis by (simp add: guess_chor_no_room)
next
  case (Some room)
  from guess_chor_step [OF Some inv [OF Some], of m g] fail show ?thesis
    by auto
qed


section \<open>The three mutating routes keep the invariant\<close>

lemma create_room_inv:
  assumes "\<And>k room. map_of rooms k = Some room \<Longrightarrow> room_inv room"
    and "map_of (snd (create_room rooms nm rid p)) k = Some room"
  shows "room_inv room"
proof (cases "k = rid")
  case True
  with assms(2) show ?thesis
    by (auto simp: create_room_def update_conv' room_inv_def)
next
  case False
  with assms show ?thesis
    by (simp add: create_room_def update_conv')
qed

lemma join_room_full:
  "map_of rooms rid = Some room \<Longrightarrow> 4 \<le> length (players room) \<Longrightarrow>
    join_room rooms rid nm p sh = (Inl RoomFull, rooms)"
  by (simp add: join_room_def MAX_PLAYERS_def)

lemma join_room_unknown:
  "map_of rooms rid = None \<Longrightarrow> join_room rooms rid nm p sh = (Inl RoomNotFound, rooms)"
  by (simp add: join_room_def)

lemma join_room_failure_unchanged:
  "fst (join_room rooms rid nm p sh) = Inl e \<Longrightarrow> snd (join_room rooms rid nm p sh) = rooms"
  by (cases "map_of rooms rid") (simp_all add: join_room_def Let_def split: if_splits)

text \<open>A join into a room with a free seat: \<open>room1\<close> is the room after the two appends.\<close>

lemma join_room_admits:
  assumes "map_of rooms rid = Some room" and "length (players room) < 4"
  shows "join_room rooms rid nm p sh =
     (Inr p,
      AList.update rid
        (if length (players room) = 3
         then assign_roles
                (room\<lparr>players := players room @ [\<lparr>pid = p, pname = nm\<rparr>],
                      scores := AList.update p 0 (scores room)\<rparr>) sh
         else room\<lparr>players := players room @ [\<lparr>pid = p, pname = nm\<rparr>],
                   scores := AList.update p 0 (scores room)\<rparr>) rooms)"
  using assms by (simp add: join_room_def MAX_PLAYERS_def Let_def)

lemma join_room_round:
  assumes "map_of rooms rid = Some room" and "length (players room) < 4"
  shows "\<exists>room'. join_room rooms rid nm p sh = (Inr p, AList.update rid room' rooms) \<and>
     players room' = players room @ [\<lparr>pid = p, pname = nm\<rparr>] \<and>
     (if length (players room) = 3
      then \<exists>r. rnd room' = Some r \<and> \<not> completed r \<and> guess r = None
      else rnd room' = rnd room)"
proof -
  define room1 where "room1 = room\<lparr>players := players room @ [\<lparr>pid = p, pname = nm\<rparr>],
      scores := AList.update p 0 (scores room)\<rparr>"
  define room2 where "room2 = (if length (players room) = 3 then assign_roles room1 sh else room1)"
  have "join_room rooms rid nm p sh = (Inr p, AList.update rid room2 rooms)"
    using join_room_admits [OF assms] by (simp add: room1_def room2_def)
  moreover have "players room2 = players room @ [\<lparr>pid = p, pname = nm\<rparr>]"
    by (simp add: room2_def players_assign_roles) (simp add: room1_def)
  moreover have "\<exists>r. rnd room2 = Some r \<and> \<not> completed r \<and> guess r = None"
    if "length (players room) = 3"
    using that rnd_assign_roles [of room1 sh] by (auto simp: room2_def)
  moreover have "rnd room2 = rnd room" if "length (players room) \<noteq> 3"
    using that by (simp add: room2_def) (simp add: room1_def)
  ultimately show ?thesis by auto
qed

lemma join_room_inv:
  assumes inv: "\<And>k room. map_of rooms k = Some room \<Longrightarrow> room_inv room"
    and sh: "is_shuffle sh"
    and k: "map_of (snd (join_room rooms rid nm p sh)) k = Some room'"
  shows "room_inv room'"
proof (cases "map_of rooms rid")
  case None
  with k inv show ?thesis by (simp add: join_room_unknown)
next
  case (Some room)
  show ?thesis
  proof (cases "length (players room) < 4")
    case False
    with Some k inv show ?thesis by (simp add: join_room_full)
  next
    case True
    define room1 where "room1 = room\<lparr>players := players room @ [\<lparr>pid = p, pname = nm\<rparr>],
        scores := AList.update p 0 (scores room)\<rparr>"
    note adm = join_room_admits [OF Some True, of nm p sh, folded room1_def]
    from inv [OF Some] have ri: "room_inv room" .
    with True have none: "rnd room = None"
      by (auto simp: room_inv_def split: option.splits)
    have sub1: "set (map pid (players room1)) \<subseteq> set (map fst (scores room1))"
      using ri by (auto simp: room1_def room_inv_def update_keys)
    show ?thesis
    proof (cases "k = rid")
      case False
      with k adm inv show ?thesis by (simp add: update_conv')
    next
      case eq: True
      show ?thesis
      proof (cases "length (players room) = 3")
        case False
        with k adm eq have "room' = room1" by (simp add: update_conv')
        with sub1 none True False show ?thesis
          by (simp add: room_inv_def) (simp add: room1_def)
      next
        case three: True
        with k adm eq have room': "room' = assign_roles room1 sh" by (simp add: update_conv')
        have len: "length (players room1) = 4"
          using three by (simp add: room1_def)
        from rnd_assign_roles [of room1 sh] obtain r where
          r: "rnd (assign_roles room1 sh) = Some r" and dk: "distinct (map fst (roles r))"
          and pk: "map fst (points r) = map fst (roles r)"
          and rs: "set (map fst (roles r)) \<subseteq> set (map pid (players room1))"
          by blast
        have dealt: "round_inv (players room1) r" if d: "distinct (map pid (players room1))"
        proof -
          from r have "r = \<lparr>roles = zip (map pid (players room1)) sh,
                        points = zip (map pid (players room1)) (map DEFAULT_POINTS sh),
                        completed = False, guess = None\<rparr>"
            by (simp add: assign_roles_eq [OF d])
          with round_inv_fresh [OF len sh] show ?thesis by simp
        qed
        from sub1 len r dk pk rs dealt show ?thesis
          by (simp add: room_inv_def room' players_assign_roles scores_assign_roles)
      qed
    qed
  qed
qed

lemma guess_chor_inv:
  assumes inv: "\<And>k room. map_of rooms k = Some room \<Longrightarrow> room_inv room"
    and k: "map_of (snd (guess_chor rooms rid m g)) k = Some room'"
  shows "room_inv room'"
proof (cases "map_of rooms rid")
  case None
  with k inv show ?thesis by (simp add: guess_chor_no_room)
next
  case (Some room)
  from inv [OF Some] have ri: "room_inv room" .
  from guess_chor_step [OF Some ri, of m g] show ?thesis
  proof (elim disjE exE conjE)
    fix e
    assume "guess_chor rooms rid m g = (Inl e, rooms)"
    with k inv show ?thesis by simp
  next
    fix r pts' scs' correct
    assume r: "rnd room = Some r"
      and eq: "guess_chor rooms rid m g =
          (Inr correct,
           AList.update rid
             (room\<lparr>rnd := Some (r\<lparr>points := pts', completed := True, guess := Some correct\<rparr>),
                   scores := scs'\<rparr>) rooms)"
      and pk: "map fst pts' = map fst (points r)"
      and ps: "sum_list (map snd pts') = sum_list (map snd (points r))"
      and sk: "map fst scs' = map fst (scores room)"
    show ?thesis
    proof (cases "k = rid")
      case False
      with k eq inv show ?thesis by (simp add: update_conv')
    next
      case True
      with k eq have "room' = room\<lparr>rnd := Some (r\<lparr>points := pts', completed := True,
          guess := Some correct\<rparr>), scores := scs'\<rparr>"
        by (simp add: update_conv')
      with ri r pk ps sk show ?thesis
        by (simp add: room_inv_def round_inv_def total_points_def)
    qed
  qed
qed

lemma reachable_inv:
  "reachable rooms \<Longrightarrow> map_of rooms k = Some room \<Longrightarrow> room_inv room"
proof (induction arbitrary: k room rule: reachable.induct)
  case init
  then show ?case by simp
next
  case (create rooms playerName room_id player_id)
  show ?case
    by (rule create_room_inv [OF _ create.prems]) (rule create.IH)
next
  case (join rooms shuffled roomId playerName player_id)
  show ?case
    by (rule join_room_inv [OF _ join.hyps(2) join.prems]) (rule join.IH)
next
  case (guess rooms room_id mantri_id guessed_id)
  show ?case
    by (rule guess_chor_inv [OF _ guess.prems]) (rule guess.IH)
qed

lemma reachable_round_inv:
  assumes "reachable rooms" and "map_of rooms k = Some room" and "rnd room = Some r"
    and "distinct (map pid (players room))"
  shows "round_inv (players room) r"
  using reachable_inv [OF assms(1,2)] assms(3,4) by (simp add: room_inv_def)

section \<open>What \<^verbatim>\<open>guess_chor\<close> leaves untouched in any registry\<close>

lemma guess_chor_shape:
  assumes room: "map_of rooms rid = Some room" and r: "rnd room = Some r"
  shows "snd (guess_chor rooms rid m g) = rooms \<or>
     (\<exists>pts' scs' c gs.
        snd (guess_chor rooms rid m g) =
          AList.update rid
            (room\<lparr>rnd := Some (r\<lparr>points := pts', completed := c, guess := gs\<rparr>),
                  scores := scs'\<rparr>) rooms \<and>
        map fst pts' = map fst (points r) \<and> map fst scs' = map fst (scores room))"
proof (cases "map_of (roles r) m = Some Mantri")
  case False
  with room r show ?thesis by (simp add: guess_chor_not_mantri)
next
  case m: True
  show ?thesis
  proof (cases "map_of (roles r) g")
    case None
    with room r m show ?thesis by (simp add: guess_chor_unknown_guess)
  next
    case (Some gr)
    obtain e1 pts1 where
      tr: "(if gr \<noteq> Chor then transfer (roles r) (points r) m else (None, points r)) = (e1, pts1)"
      by (meson surj_pair)
    obtain es scs where ad: "add_scores pts1 (scores room) = (es, scs)"
      by (meson surj_pair)
    from tr have "pts1 = snd (if gr \<noteq> Chor then transfer (roles r) (points r) m else (None, points r))"
      by simp
    then have k1: "map fst pts1 = map fst (points r)"
      by (simp add: transfer_keys)
    from ad have "scs = snd (add_scores pts1 (scores room))"
      by simp
    then have k2: "map fst scs = map fst (scores room)"
      by (simp add: add_scores_keys)
    show ?thesis
    proof (cases e1)
      case e: (Some e)
      have "snd (guess_chor rooms rid m g) =
          AList.update rid
            (room\<lparr>rnd := Some (r\<lparr>points := pts1, completed := completed r, guess := guess r\<rparr>),
                  scores := scores room\<rparr>) rooms"
        unfolding guess_chor_def using room r m Some tr e by (simp add: Let_def)
      with k1 show ?thesis by blast
    next
      case None
      show ?thesis
      proof (cases es)
        case e: (Some e)
        have "snd (guess_chor rooms rid m g) =
            AList.update rid
              (room\<lparr>rnd := Some (r\<lparr>points := pts1, completed := completed r, guess := guess r\<rparr>),
                    scores := scs\<rparr>) rooms"
          unfolding guess_chor_def using room r m Some tr ad None e by (simp add: Let_def)
        with k1 k2 show ?thesis by blast
      next
        case n: None
        have "snd (guess_chor rooms rid m g) =
            AList.update rid
                   (room\<lparr>rnd := Some (r\<lparr>points := pts1, completed := True,
                                        guess := Some (gr = Chor)\<rparr>),
                         scores := scs\<rparr>) rooms"
          unfolding guess_chor_def using room r m Some tr ad None n by (simp add: Let_def)
        with k1 k2 show ?thesis by blast
      qed
    qed
  qed
qed

lemma guess_chor_registry:
  "snd (guess_chor rooms rid m g) = rooms \<or>
   (\<exists>room room'. map_of rooms rid = Some room \<and>
      snd (guess_chor rooms rid m g) = AList.update rid room' rooms)"
proof (cases "map_of rooms rid")
  case None
  then show ?thesis by (simp add: guess_chor_no_room)
next
  case (Some room)
  show ?thesis
  proof (cases "rnd room")
    case None
    with Some show ?thesis by (simp add: guess_chor_no_round)
  next
    case r: (Some r)
    from guess_chor_shape [OF Some r, of m g] Some show ?thesis
      by blast
  qed
qed

lemma guess_chor_keeps_frame:
  "map_option guess_frame (map_of (snd (guess_chor rooms rid m g)) rid) =
     map_option guess_frame (map_of rooms rid)"
proof (cases "map_of rooms rid")
  case None
  then show ?thesis by (simp add: guess_chor_no_room)
next
  case (Some room)
  show ?thesis
  proof (cases "rnd room")
    case None
    with Some show ?thesis by (simp add: guess_chor_no_round)
  next
    case r: (Some r)
    from guess_chor_shape [OF Some r, of m g] show ?thesis
    proof (elim disjE exE conjE)
      assume "snd (guess_chor rooms rid m g) = rooms"
      then show ?thesis by simp
    next
      fix pts' scs' c gs
      assume "snd (guess_chor rooms rid m g) =
          AList.update rid
            (room\<lparr>rnd := Some (r\<lparr>points := pts', completed := c, guess := gs\<rparr>),
                  scores := scs'\<rparr>) rooms"
        and "map fst pts' = map fst (points r)" and "map fst scs' = map fst (scores room)"
      with Some r show ?thesis
        by (simp add: update_conv' guess_frame_def)
    qed
  qed
qed

section \<open>Evaluating the game of four\<close>

lemma shuffle_in_order: "is_shuffle [Raja, Mantri, Chor, Sipahi]"
  by (simp add: is_shuffle_def)

lemma room_of_three_eq: "room_of_three = [(''r1'', the_room_of_three)]"
  by (simp add: room_of_three_def create_room_def join_room_def MAX_PLAYERS_def
      the_room_of_three_def)

lemma room_of_four_eq: "room_of_four = [(''r1'', the_room_of_four)]"
  by (simp add: room_of_four_def room_of_three_eq join_room_def MAX_PLAYERS_def
      assign_roles_def the_room_of_three_def the_room_of_four_def round_of_four_def
      roles_of_four_def players_of_four_def)

lemma reachable_room_of_three: "reachable room_of_three"
  unfolding room_of_three_def
  by (intro reachable.join reachable.create reachable.init shuffle_in_order)

lemma reachable_room_of_four: "reachable room_of_four"
  unfolding room_of_four_def
  by (intro reachable.join reachable_room_of_three shuffle_in_order)

lemma lookup_room_of_three: "map_of room_of_three ''r1'' = Some the_room_of_three"
  by (simp add: room_of_three_eq)

lemma lookup_room_of_four: "map_of room_of_four ''r1'' = Some the_room_of_four"
  by (simp add: room_of_four_eq)

lemma rnd_the_room_of_four: "rnd the_room_of_four = Some round_of_four"
  by (simp add: the_room_of_four_def)

lemma distinct_players_of_four: "distinct (map pid (players the_room_of_four))"
  by (simp add: the_room_of_four_def players_of_four_def)

lemma fourth_join:
  "join_room room_of_three ''r1'' ''Dev'' ''d'' [Raja, Mantri, Chor, Sipahi] = (Inr ''d'', room_of_four)"
  by (simp add: room_of_four_def room_of_three_eq join_room_def MAX_PLAYERS_def
      the_room_of_three_def)

lemma fifth_join:
  "join_room room_of_four ''r1'' ''Esha'' ''e'' [Raja, Mantri, Chor, Sipahi] =
    (Inl RoomFull, room_of_four)"
  by (simp add: room_of_four_eq join_room_def MAX_PLAYERS_def the_room_of_four_def
      players_of_four_def)

lemma raja_guesses:
  "guess_chor room_of_four ''r1'' ''a'' ''c'' = (Inl OnlyMantriCanGuess, room_of_four)"
  by (simp add: room_of_four_eq guess_chor_def the_room_of_four_def round_of_four_def
      roles_of_four_def)

lemma guess_by_mantri_at_chor:
  "guess_chor room_of_four ''r1'' ''b'' ''c'' =
     (Inr True,
      [(''r1'', \<lparr>players = players_of_four,
                rnd = Some \<lparr>roles = roles_of_four,
                            points = [(''a'', 1000), (''b'', 800), (''c'', 0), (''d'', 500)],
                            completed = True, guess = Some True\<rparr>,
                scores = [(''a'', 1000), (''b'', 800), (''c'', 0), (''d'', 500)]\<rparr>)])"
  by (simp add: room_of_four_eq guess_chor_def the_room_of_four_def round_of_four_def
      roles_of_four_def)

lemma guess_by_mantri_at_raja:
  "guess_chor room_of_four ''r1'' ''b'' ''a'' = (Inr False, [(''r1'', room_after_wrong_guess)])"
  by (simp add: room_of_four_eq guess_chor_def the_room_of_four_def round_of_four_def
      roles_of_four_def transfer_def room_after_wrong_guess_def round_after_wrong_guess_def)

lemma after_first_guess_eq:
  "after_first_guess =
      [(''r1'', \<lparr>players = players_of_four,
                rnd = Some \<lparr>roles = roles_of_four,
                            points = [(''a'', 1000), (''b'', 800), (''c'', 0), (''d'', 500)],
                            completed = True, guess = Some True\<rparr>,
                scores = [(''a'', 1000), (''b'', 800), (''c'', 0), (''d'', 500)]\<rparr>)]"
  by (simp add: after_first_guess_def guess_by_mantri_at_chor)


section \<open>A second guess on a resolved round\<close>

text \<open>
  C1 says that a second \<^verbatim>\<open>guess_chor\<close> on a room whose round is already completed fails
  and adds nothing to the cumulative scores. The code sets \<^verbatim>\<open>completed\<close> and never reads it:
  in the game of four, after Bala's first guess has been resolved (\<open>completed\<close> is true and
  the scores are 1000, 800, 0, 500), the same request is answered \<^verbatim>\<open>{"correct": true}\<close>
  again and every round point is added a second time.
\<close>

theorem second_guess_scores_again:
  "fst (guess_chor room_of_four ''r1'' ''b'' ''c'') = Inr True \<and>
   map_option (\<lambda>room. (map_option completed (rnd room), scores room))
       (map_of after_first_guess ''r1'') =
     Some (Some True, [(''a'', 1000), (''b'', 800), (''c'', 0), (''d'', 500)]) \<and>
   fst (guess_chor after_first_guess ''r1'' ''b'' ''c'') = Inr True \<and>
   map_option scores (map_of (snd (guess_chor after_first_guess ''r1'' ''b'' ''c'')) ''r1'') =
     Some [(''a'', 2000), (''b'', 1600), (''c'', 0), (''d'', 1000)]"
  by (simp add: guess_by_mantri_at_chor after_first_guess_eq)
     (simp add: guess_chor_def roles_of_four_def)

section \<open>A guess at an identifier outside the round\<close>

text \<open>
  C2 says that a Mantri's guess at an identifier that is not a key of the role dictionary
  does not raise and counts as a wrong guess. The code indexes \<^verbatim>\<open>roles[guessed_id]\<close>, so in
  the game of four Bala's guess at the unknown identifier \<open>zz\<close> raises \<open>KeyError\<close> and
  leaves the registry as it was; his guess at himself is answered \<^verbatim>\<open>{"correct": false}\<close>.
\<close>

theorem unknown_guessed_id_raises:
  "map_of (roles round_of_four) ''b'' = Some Mantri \<and>
   map_of (roles round_of_four) ''zz'' = None \<and>
   guess_chor room_of_four ''r1'' ''b'' ''zz'' = (Inl KeyError, room_of_four) \<and>
   fst (guess_chor room_of_four ''r1'' ''b'' ''b'') = Inr False"
  by (simp add: room_of_four_eq guess_chor_def the_room_of_four_def round_of_four_def
      roles_of_four_def transfer_def)

section \<open>Read accessors on an unknown room\<close>

text \<open>
  C3, as the claim states it, fails: for a room id that the registry does not know,
  \<^verbatim>\<open>my_role\<close> answers with an absent role and no error, and \<^verbatim>\<open>result\<close> answers
  "No round", not "Room not found". The empty registry shows both.
\<close>

theorem unknown_room_not_always_RoomNotFound:
  "map_of ([] :: rooms) ''r1'' = None \<and>
   my_role [] ''r1'' ''a'' \<noteq> Inl RoomNotFound \<and>
   result [] ''r1'' \<noteq> Inl RoomNotFound"
  by (simp add: my_role_def result_def)

text \<open>
  C3, amended: for a room id unknown to the registry, \<^verbatim>\<open>list_players\<close> and
  \<^verbatim>\<open>leaderboard\<close> fail with "Room not found", \<^verbatim>\<open>my_role\<close> returns the absent role
  without failing, and \<^verbatim>\<open>result\<close> fails with "No round".
\<close>

theorem read_accessors_unknown_room:
  assumes "map_of rooms room_id = None"
  shows "list_players rooms room_id = Inl RoomNotFound \<and>
         leaderboard rooms room_id = Inl RoomNotFound \<and>
         my_role rooms room_id player_id = Inr None \<and>
         result rooms room_id = Inl NoRound"
  using assms by (simp add: list_players_def leaderboard_def my_role_def result_def)

theorem read_accessors_unknown_room_witness:
  "map_of room_of_four ''r2'' = None \<and>
   list_players room_of_four ''r2'' = Inl RoomNotFound \<and>
   leaderboard room_of_four ''r2'' = Inl RoomNotFound \<and>
   my_role room_of_four ''r2'' ''a'' = Inr None \<and>
   result room_of_four ''r2'' = Inl NoRound"
proof -
  have unknown: "map_of room_of_four ''r2'' = None"
    by (simp add: room_of_four_eq)
  from read_accessors_unknown_room [OF unknown, of "''a''"] unknown show ?thesis
    by simp
qed

section \<open>The first guess of a round\<close>

lemma map_of_initial_points:
  "map_of (initial_points rls) k = map_option DEFAULT_POINTS (map_of rls k)"
  by (simp add: initial_points_def map_of_map)

text \<open>
  Where the accused is a player of the round, the first guess resolves: in a reachable
  registry, take a room of four distinct players whose round is not yet completed, a
  caller who holds role Mantri and an accused who is a key of the role dictionary. Then
  \<^verbatim>\<open>guess_chor\<close> answers whether the accused is the Chor. On a correct guess the points
  dictionary is unchanged. On a wrong guess the Mantri's points go from 800 to 0, the
  Chor's from 0 to 800, and every other entry is unchanged. In both cases each of the
  four players' round points is added to that player's cumulative score, and the round is
  marked completed with the outcome of the guess.
\<close>

lemma accused_in_round_resolves:
  assumes "reachable rooms" and "map_of rooms room_id = Some room" and "rnd room = Some r"
    and "distinct (map pid (players room))"
    and "\<not> completed r"
    and "map_of (roles r) mantri_id = Some Mantri"
    and "map_of (roles r) guessed_id = Some guessed_role"
  shows "\<exists>room' r' chor_id.
     guess_chor rooms room_id mantri_id guessed_id =
       (Inr (guessed_role = Chor), AList.update room_id room' rooms) \<and>
     rnd room' = Some r' \<and> completed r' \<and> guess r' = Some (guessed_role = Chor) \<and>
     map_of (roles r) chor_id = Some Chor \<and> chor_id \<noteq> mantri_id \<and>
     length (points r) = 4 \<and> distinct (map fst (points r)) \<and>
     map fst (points r') = map fst (points r) \<and>
     (guessed_role = Chor \<longrightarrow> points r' = points r) \<and>
     (guessed_role \<noteq> Chor \<longrightarrow>
        map_of (points r) mantri_id = Some 800 \<and> map_of (points r') mantri_id = Some 0 \<and>
        map_of (points r) chor_id = Some 0 \<and> map_of (points r') chor_id = Some 800 \<and>
        (\<forall>p. p \<noteq> mantri_id \<longrightarrow> p \<noteq> chor_id \<longrightarrow>
           map_of (points r') p = map_of (points r) p)) \<and>
     (\<forall>p \<in> set (map pid (players room)).
        \<exists>s v. map_of (scores room) p = Some s \<and> map_of (points r') p = Some v \<and>
          map_of (scores room') p = Some (s + v))"
proof -
  note dist = assms(4)
  from reachable_inv [OF assms(1,2)] have inv: "room_inv room" .
  with assms(3) have len: "length (players room) = 4"
    and sk: "set (map pid (players room)) \<subseteq> set (map fst (scores room))"
    by (simp_all add: room_inv_def)
  from reachable_round_inv [OF assms(1-4)] have rinv: "round_inv (players room) r" .
  with assms(5) have rk: "map fst (roles r) = map pid (players room)"
    and pk: "map fst (points r) = map pid (players room)"
    and init: "points r = initial_points (roles r)"
    and has_chor: "Chor \<in> set (map snd (roles r))"
    by (auto simp: round_inv_def)
  have dk: "distinct (map fst (roles r))"
    using rk dist by simp
  from first_chor [OF has_chor dk] obtain chor_id where
    chor: "map_of (roles r) chor_id = Some Chor"
    by blast
  with assms(6) have ne: "chor_id \<noteq> mantri_id" by auto
  from guess_chor_resolved [OF assms(2,3) inv assms(6,7)] has_chor obtain pts' scs' where
    eq: "guess_chor rooms room_id mantri_id guessed_id =
       (Inr (guessed_role = Chor),
        AList.update room_id
          (room\<lparr>rnd := Some (r\<lparr>points := pts', completed := True,
                               guess := Some (guessed_role = Chor)\<rparr>),
                scores := scs'\<rparr>) rooms)"
    and right: "guessed_role = Chor \<longrightarrow> pts' = points r"
    and wrong: "guessed_role \<noteq> Chor \<longrightarrow>
        (\<exists>c stolen pc. map_of (roles r) c = Some Chor \<and> c \<noteq> mantri_id \<and>
           map_of (points r) mantri_id = Some stolen \<and> map_of (points r) c = Some pc \<and>
           pts' = AList.update c (pc + stolen) (AList.update mantri_id 0 (points r)))"
    and pk': "map fst pts' = map fst (points r)"
    and sc: "\<forall>p. map_of scs' p =
        (case map_of pts' p of
           None \<Rightarrow> map_of (scores room) p
         | Some v \<Rightarrow> map_option (\<lambda>s. s + v) (map_of (scores room) p))"
    by blast
  define r' where "r' = r\<lparr>points := pts', completed := True, guess := Some (guessed_role = Chor)\<rparr>"
  define room' where "room' = room\<lparr>rnd := Some r', scores := scs'\<rparr>"
  have c1: "guess_chor rooms room_id mantri_id guessed_id =
       (Inr (guessed_role = Chor), AList.update room_id room' rooms)"
    using eq by (simp add: room'_def r'_def)
  have c2: "rnd room' = Some r'" "completed r'" "guess r' = Some (guessed_role = Chor)"
    by (simp_all add: room'_def r'_def)
  have c3: "length (points r) = 4"
    using pk len by (metis length_map)
  have c4: "distinct (map fst (points r))"
    using pk dist by simp
  have c5: "map fst (points r') = map fst (points r)"
    using pk' by (simp add: r'_def)
  have c6: "guessed_role = Chor \<longrightarrow> points r' = points r"
    using right by (simp add: r'_def)
  have uniq: "c = chor_id" if "map_of (roles r) c = Some Chor" for c
  proof -
    have inj: "inj_on (\<lambda>k. the (map_of (roles r) k)) (set (map fst (roles r)))"
      using rinv by (intro alist_inj_on) (simp add: round_inv_def)
    have mem: "c \<in> set (map fst (roles r))" "chor_id \<in> set (map fst (roles r))"
      using that chor by (metis map_of_keys_None option.distinct(1))+
    have "the (map_of (roles r) c) = the (map_of (roles r) chor_id)"
      using that chor by simp
    from inj_onD [OF inj this mem] show ?thesis .
  qed
  have m800: "map_of (points r) mantri_id = Some 800"
    using assms(6) by (simp add: init map_of_initial_points)
  have c0: "map_of (points r) chor_id = Some 0"
    using chor by (simp add: init map_of_initial_points)
  have c7: "guessed_role \<noteq> Chor \<longrightarrow>
        map_of (points r) mantri_id = Some 800 \<and> map_of (points r') mantri_id = Some 0 \<and>
        map_of (points r) chor_id = Some 0 \<and> map_of (points r') chor_id = Some 800 \<and>
        (\<forall>p. p \<noteq> mantri_id \<longrightarrow> p \<noteq> chor_id \<longrightarrow>
           map_of (points r') p = map_of (points r) p)"
  proof
    assume "guessed_role \<noteq> Chor"
    with wrong obtain c stolen pc where c: "map_of (roles r) c = Some Chor"
      and st: "map_of (points r) mantri_id = Some stolen" and pc: "map_of (points r) c = Some pc"
      and pts': "pts' = AList.update c (pc + stolen) (AList.update mantri_id 0 (points r))"
      by blast
    from uniq [OF c] have cc: "c = chor_id" .
    from st m800 have s: "stolen = 800" by simp
    from pc c0 cc have p: "pc = 0" by simp
    have "map_of (points r') = (map_of (points r))(mantri_id \<mapsto> 0, chor_id \<mapsto> 800)"
      by (simp add: r'_def pts' cc s p update_conv')
    with m800 c0 ne show "map_of (points r) mantri_id = Some 800 \<and>
        map_of (points r') mantri_id = Some 0 \<and>
        map_of (points r) chor_id = Some 0 \<and> map_of (points r') chor_id = Some 800 \<and>
        (\<forall>p. p \<noteq> mantri_id \<longrightarrow> p \<noteq> chor_id \<longrightarrow>
           map_of (points r') p = map_of (points r) p)"
      by simp
  qed
  have c8: "\<forall>p \<in> set (map pid (players room)).
        \<exists>s v. map_of (scores room) p = Some s \<and> map_of (points r') p = Some v \<and>
          map_of (scores room') p = Some (s + v)"
  proof
    fix p
    assume p: "p \<in> set (map pid (players room))"
    then have "p \<in> set (map fst (scores room))" "p \<in> set (map fst pts')"
      using sk pk pk' by auto
    then obtain s v where s: "map_of (scores room) p = Some s" and v: "map_of pts' p = Some v"
      by (metis map_of_keys_None option.exhaust)
    with sc have "map_of scs' p = Some (s + v)" by simp
    with s v show "\<exists>s v. map_of (scores room) p = Some s \<and> map_of (points r') p = Some v \<and>
          map_of (scores room') p = Some (s + v)"
      by (simp add: room'_def r'_def)
  qed
  from c1 c2 chor ne c3 c4 c5 c6 c7 c8 show ?thesis
    by - (rule exI [of _ room'], rule exI [of _ r'], rule exI [of _ chor_id],
          intro conjI, assumption+)
qed

lemma accused_in_round_resolves_example:
  "reachable room_of_four \<and> map_of room_of_four ''r1'' = Some the_room_of_four \<and>
   rnd the_room_of_four = Some round_of_four \<and>
   distinct (map pid (players the_room_of_four)) \<and> \<not> completed round_of_four \<and>
   map_of (roles round_of_four) ''b'' = Some Mantri \<and>
   map_of (roles round_of_four) ''a'' = Some Raja \<and>
   fst (guess_chor room_of_four ''r1'' ''b'' ''a'') = Inr False"
proof -
  have nc: "\<not> completed round_of_four"
    and m: "map_of (roles round_of_four) ''b'' = Some Mantri"
    and g: "map_of (roles round_of_four) ''a'' = Some Raja"
    by (simp_all add: round_of_four_def roles_of_four_def)
  from accused_in_round_resolves [OF reachable_room_of_four lookup_room_of_four
      rnd_the_room_of_four distinct_players_of_four nc m g]
  have "fst (guess_chor room_of_four ''r1'' ''b'' ''a'') = Inr False"
    by auto
  with reachable_room_of_four lookup_room_of_four rnd_the_room_of_four
    distinct_players_of_four nc m g
  show ?thesis by simp
qed


text \<open>
  C4 says that every first \<^verbatim>\<open>guess_chor\<close> by the player who holds role Mantri resolves
  the round: a wrong guess zeroes the Mantri's round points and gives them to the Chor,
  and in either case every player's round points are added to the cumulative scores. An
  accused who is no player of the round is a wrong guess too, but the code indexes
  \<^verbatim>\<open>roles[guessed_id]\<close>: in the game of four, whose round is not completed, Bala's first
  guess at the unknown identifier \<open>zz\<close> raises \<open>KeyError\<close>; his 800 points are not
  transferred, no score is added and the round stays uncompleted.
\<close>

theorem first_guess_at_unknown_accused:
  "reachable room_of_four \<and> map_of room_of_four ''r1'' = Some the_room_of_four \<and>
   rnd the_room_of_four = Some round_of_four \<and> \<not> completed round_of_four \<and>
   map_of (roles round_of_four) ''b'' = Some Mantri \<and>
   map_of (roles round_of_four) ''zz'' = None \<and>
   fst (guess_chor room_of_four ''r1'' ''b'' ''zz'') = Inl KeyError \<and>
   map_option (\<lambda>room. (map_option points (rnd room), map_option completed (rnd room), scores room))
       (map_of (snd (guess_chor room_of_four ''r1'' ''b'' ''zz'')) ''r1'') =
     Some (Some [(''a'', 1000), (''b'', 800), (''c'', 0), (''d'', 500)], Some False,
           [(''a'', 0), (''b'', 0), (''c'', 0), (''d'', 0)])"
proof -
  have m: "map_of (roles round_of_four) ''b'' = Some Mantri"
    and g: "map_of (roles round_of_four) ''zz'' = None"
    and nc: "\<not> completed round_of_four"
    by (simp_all add: round_of_four_def roles_of_four_def)
  from guess_chor_unknown_guess [OF lookup_room_of_four rnd_the_room_of_four m g]
  have eq: "guess_chor room_of_four ''r1'' ''b'' ''zz'' = (Inl KeyError, room_of_four)" .
  have after: "map_option
      (\<lambda>room. (map_option points (rnd room), map_option completed (rnd room), scores room))
      (map_of room_of_four ''r1'') =
     Some (Some [(''a'', 1000), (''b'', 800), (''c'', 0), (''d'', 500)], Some False,
           [(''a'', 0), (''b'', 0), (''c'', 0), (''d'', 0)])"
    by (simp add: room_of_four_eq the_room_of_four_def round_of_four_def)
  from reachable_room_of_four lookup_room_of_four rnd_the_room_of_four nc m g eq after
  show ?thesis by simp
qed

section \<open>Conservation of the round points\<close>

text \<open>
  C5: in a reachable registry, the round points of a room of four distinct players add up
  to \<open>1000 + 800 + 500 + 0 = 2300\<close>: right after the join that assigns the roles, and in
  every later state. Across any \<^verbatim>\<open>guess_chor\<close> request, whatever it answers, the sum of
  the round points is what it was before.
\<close>

theorem round_points_total:
  assumes "reachable rooms" and "map_of rooms room_id = Some room"
  shows "(\<forall>room' r'. is_shuffle shuffled \<longrightarrow>
            map_of (snd (join_room rooms room_id playerName player_id shuffled)) room_id =
              Some room' \<longrightarrow>
            rnd room' = Some r' \<longrightarrow> distinct (map pid (players room')) \<longrightarrow>
            total_points r' = 2300) \<and>
         (\<forall>r. rnd room = Some r \<longrightarrow> distinct (map pid (players room)) \<longrightarrow>
            length (points r) = 4 \<and> total_points r = 2300) \<and>
         (\<forall>r room' r'. rnd room = Some r \<longrightarrow>
            map_of (snd (guess_chor rooms room_id mantri_id guessed_id)) room_id = Some room' \<longrightarrow>
            rnd room' = Some r' \<longrightarrow> total_points r' = total_points r)"
proof (intro conjI allI impI)
  fix room' r'
  assume "is_shuffle shuffled"
  with assms(1)
  have "reachable (snd (join_room rooms room_id playerName player_id shuffled))"
    by (rule reachable.join)
  moreover assume
    "map_of (snd (join_room rooms room_id playerName player_id shuffled)) room_id = Some room'"
    "rnd room' = Some r'" "distinct (map pid (players room'))"
  ultimately have "round_inv (players room') r'"
    by (rule reachable_round_inv)
  then show "total_points r' = 2300"
    by (simp add: round_inv_def)
next
  fix r
  assume r: "rnd room = Some r" and d: "distinct (map pid (players room))"
  from reachable_round_inv [OF assms r d]
  have "map fst (points r) = map pid (players room)"
    by (simp add: round_inv_def)
  moreover from reachable_inv [OF assms] r have "length (players room) = 4"
    by (simp add: room_inv_def)
  ultimately show "length (points r) = 4"
    by (metis length_map)
next
  fix r
  assume r: "rnd room = Some r" and d: "distinct (map pid (players room))"
  from reachable_round_inv [OF assms r d] show "total_points r = 2300"
    by (simp add: round_inv_def)
next
  fix r room' r'
  assume r: "rnd room = Some r"
    and k: "map_of (snd (guess_chor rooms room_id mantri_id guessed_id)) room_id = Some room'"
    and r': "rnd room' = Some r'"
  from guess_chor_step [OF assms(2) reachable_inv [OF assms], of mantri_id guessed_id]
  show "total_points r' = total_points r"
  proof (elim disjE exE conjE)
    fix e
    assume "guess_chor rooms room_id mantri_id guessed_id = (Inl e, rooms)"
    with k assms(2) r r' show ?thesis by simp
  next
    fix r0 pts' scs' correct
    assume "rnd room = Some r0"
      and "guess_chor rooms room_id mantri_id guessed_id =
          (Inr correct,
           AList.update room_id
             (room\<lparr>rnd := Some (r0\<lparr>points := pts', completed := True, guess := Some correct\<rparr>),
                   scores := scs'\<rparr>) rooms)"
      and "sum_list (map snd pts') = sum_list (map snd (points r0))"
    with k r r' show ?thesis
      by (auto simp: update_conv' total_points_def)
  qed
qed

theorem round_points_total_witness:
  "reachable room_of_three \<and> map_of room_of_three ''r1'' = Some the_room_of_three \<and>
   is_shuffle [Raja, Mantri, Chor, Sipahi] \<and>
   map_of (snd (join_room room_of_three ''r1'' ''Dev'' ''d'' [Raja, Mantri, Chor, Sipahi])) ''r1'' =
     Some the_room_of_four \<and>
   rnd the_room_of_four = Some round_of_four \<and>
   distinct (map pid (players the_room_of_four)) \<and> total_points round_of_four = 2300 \<and>
   reachable room_of_four \<and> map_of room_of_four ''r1'' = Some the_room_of_four \<and>
   map_of (snd (guess_chor room_of_four ''r1'' ''b'' ''a'')) ''r1'' = Some room_after_wrong_guess \<and>
   rnd room_after_wrong_guess = Some round_after_wrong_guess \<and>
   total_points round_after_wrong_guess = total_points round_of_four"
proof -
  have joined: "map_of (snd (join_room room_of_three ''r1'' ''Dev'' ''d''
      [Raja, Mantri, Chor, Sipahi])) ''r1'' = Some the_room_of_four"
    by (simp add: fourth_join lookup_room_of_four)
  have guessed: "map_of (snd (guess_chor room_of_four ''r1'' ''b'' ''a'')) ''r1'' =
      Some room_after_wrong_guess"
    by (simp add: guess_by_mantri_at_raja)
  have after: "rnd room_after_wrong_guess = Some round_after_wrong_guess"
    by (simp add: room_after_wrong_guess_def)
  from round_points_total [OF reachable_room_of_three lookup_room_of_three,
      of "[Raja, Mantri, Chor, Sipahi]" "''Dev''" "''d''" "''b''" "''a''"]
    shuffle_in_order joined rnd_the_room_of_four distinct_players_of_four
  have t1: "total_points round_of_four = 2300" by blast
  from round_points_total [OF reachable_room_of_four lookup_room_of_four,
      of "[Raja, Mantri, Chor, Sipahi]" "''Esha''" "''e''" "''b''" "''a''"]
    rnd_the_room_of_four guessed after
  have t2: "total_points round_after_wrong_guess = total_points round_of_four" by blast
  from reachable_room_of_three lookup_room_of_three shuffle_in_order joined
    rnd_the_room_of_four distinct_players_of_four t1 reachable_room_of_four
    lookup_room_of_four guessed after t2
  show ?thesis by (intro conjI) assumption+
qed

section \<open>The round is created by the fourth join, once\<close>

text \<open>
  C6: every room of a reachable registry has at most four players and has a round exactly
  when it has four. A join into a room of fewer than three players succeeds and leaves the
  room without a round; the join into a room of three succeeds, brings the roster to four
  and creates the round, not yet completed; a join into a room of four fails with "Room
  full" and leaves the registry as it was. Joins are the only requests that create a
  round, so as a room is full from then on no second round is created, and
  \<^verbatim>\<open>guess_chor\<close> leaves a room with the round it had, on the same role dictionary, or
  with none if it had none.
\<close>

theorem round_created_by_fourth_join:
  assumes "reachable rooms" and "map_of rooms roomId = Some room"
  shows "length (players room) \<le> 4 \<and>
     (rnd room = None \<longleftrightarrow> length (players room) < 4) \<and>
     (length (players room) < 3 \<longrightarrow>
        (\<exists>room'. join_room rooms roomId playerName player_id shuffled =
                    (Inr player_id, AList.update roomId room' rooms) \<and>
                 length (players room') = length (players room) + 1 \<and> rnd room' = None)) \<and>
     (length (players room) = 3 \<longrightarrow>
        (\<exists>room' r'. join_room rooms roomId playerName player_id shuffled =
                    (Inr player_id, AList.update roomId room' rooms) \<and>
                 length (players room') = 4 \<and> rnd room' = Some r' \<and>
                 \<not> completed r' \<and> guess r' = None)) \<and>
     (length (players room) = 4 \<longrightarrow>
        join_room rooms roomId playerName player_id shuffled = (Inl RoomFull, rooms)) \<and>
     map_option (\<lambda>room'. map_option roles (rnd room'))
        (map_of (snd (guess_chor rooms roomId mantri_id guessed_id)) roomId) =
       Some (map_option roles (rnd room))"
proof -
  from reachable_inv [OF assms] have inv: "room_inv room" .
  then have le: "length (players room) \<le> 4"
    and none: "rnd room = None \<longleftrightarrow> length (players room) < 4"
    by (auto simp: room_inv_def split: option.splits)
  have few: "\<exists>room'. join_room rooms roomId playerName player_id shuffled =
                    (Inr player_id, AList.update roomId room' rooms) \<and>
                 length (players room') = length (players room) + 1 \<and> rnd room' = None"
    if "length (players room) < 3"
  proof -
    from that have "length (players room) < 4" by simp
    from join_room_round [OF assms(2) this, of playerName player_id shuffled] that none
    show ?thesis by auto
  qed
  have fourth: "\<exists>room' r'. join_room rooms roomId playerName player_id shuffled =
                    (Inr player_id, AList.update roomId room' rooms) \<and>
                 length (players room') = 4 \<and> rnd room' = Some r' \<and>
                 \<not> completed r' \<and> guess r' = None"
    if "length (players room) = 3"
  proof -
    from that have "length (players room) < 4" by simp
    from join_room_round [OF assms(2) this, of playerName player_id shuffled] that
    show ?thesis by auto
  qed
  have full: "join_room rooms roomId playerName player_id shuffled = (Inl RoomFull, rooms)"
    if "length (players room) = 4"
    using that assms(2) by (simp add: join_room_full)
  have "map_option guess_frame
      (map_of (snd (guess_chor rooms roomId mantri_id guessed_id)) roomId) =
      Some (guess_frame room)"
    using guess_chor_keeps_frame [of rooms roomId mantri_id guessed_id] assms(2) by simp
  then have keep: "map_option (\<lambda>room'. map_option roles (rnd room'))
        (map_of (snd (guess_chor rooms roomId mantri_id guessed_id)) roomId) =
       Some (map_option roles (rnd room))"
    by (auto simp: guess_frame_def)
  from le none few fourth full keep show ?thesis
    by (intro conjI impI) assumption+
qed

theorem round_created_by_fourth_join_witness:
  "reachable room_of_three \<and> map_of room_of_three ''r1'' = Some the_room_of_three \<and>
   length (players the_room_of_three) = 3 \<and> rnd the_room_of_three = None \<and>
   fst (join_room room_of_three ''r1'' ''Dev'' ''d'' [Raja, Mantri, Chor, Sipahi]) = Inr ''d'' \<and>
   reachable room_of_four \<and> map_of room_of_four ''r1'' = Some the_room_of_four \<and>
   length (players the_room_of_four) = 4 \<and> rnd the_room_of_four \<noteq> None \<and>
   join_room room_of_four ''r1'' ''Esha'' ''e'' [Raja, Mantri, Chor, Sipahi] =
     (Inl RoomFull, room_of_four)"
proof -
  have l3: "length (players the_room_of_three) = 3"
    by (simp add: the_room_of_three_def)
  have l4: "length (players the_room_of_four) = 4"
    by (simp add: the_room_of_four_def players_of_four_def)
  note three = round_created_by_fourth_join [OF reachable_room_of_three lookup_room_of_three,
      of "''Dev''" "''d''" "[Raja, Mantri, Chor, Sipahi]" "''b''" "''c''"]
  note four = round_created_by_fourth_join [OF reachable_room_of_four lookup_room_of_four,
      of "''Esha''" "''e''" "[Raja, Mantri, Chor, Sipahi]" "''b''" "''c''"]
  from three l3 have n3: "rnd the_room_of_three = None" by simp
  from three l3
  have j3: "fst (join_room room_of_three ''r1'' ''Dev'' ''d'' [Raja, Mantri, Chor, Sipahi]) = Inr ''d''"
    by auto
  from four l4 have n4: "rnd the_room_of_four \<noteq> None" by simp
  from four l4
  have j4: "join_room room_of_four ''r1'' ''Esha'' ''e'' [Raja, Mantri, Chor, Sipahi] =
     (Inl RoomFull, room_of_four)"
    by simp
  from reachable_room_of_three lookup_room_of_three l3 n3 j3
    reachable_room_of_four lookup_room_of_four l4 n4 j4
  show ?thesis by (intro conjI) assumption+
qed

section \<open>The role assignment is a bijection\<close>

text \<open>
  C7: in a reachable registry, the round of a room of four distinct players has a role
  dictionary whose keys are exactly the identifiers of the room's players and which maps
  them one-to-one onto the four roles, and a points dictionary with the same keys. As
  this holds of every reachable registry, it holds when the round is created and after
  every later request.
\<close>

theorem round_roles_bijection:
  assumes "reachable rooms" and "map_of rooms room_id = Some room" and "rnd room = Some r"
    and "distinct (map pid (players room))"
  shows "length (players room) = 4 \<and>
     dom (map_of (roles r)) = set (map pid (players room)) \<and>
     bij_betw (\<lambda>p. the (map_of (roles r) p)) (set (map pid (players room)))
       {Raja, Mantri, Chor, Sipahi} \<and>
     map fst (points r) = map fst (roles r) \<and>
     dom (map_of (points r)) = dom (map_of (roles r))"
proof -
  from reachable_inv [OF assms(1,2)] assms(3)
  have len: "length (players room) = 4"
    by (simp add: room_inv_def)
  from reachable_round_inv [OF assms]
  have rk: "map fst (roles r) = map pid (players room)"
    and dv: "distinct (map snd (roles r))"
    and sv: "set (map snd (roles r)) = {Raja, Mantri, Chor, Sipahi}"
    and pk: "map fst (points r) = map fst (roles r)"
    by (simp_all add: round_inv_def)
  have d1: "dom (map_of (roles r)) = set (map pid (players room))"
    using rk by (simp add: dom_map_of_conv_image_fst flip: set_map)
  have d2: "dom (map_of (points r)) = dom (map_of (roles r))"
    using pk by (simp add: dom_map_of_conv_image_fst flip: set_map)
  have "inj_on (\<lambda>p. the (map_of (roles r) p)) (set (map fst (roles r)))"
    using dv by (rule alist_inj_on)
  moreover have "(\<lambda>p. the (map_of (roles r) p)) ` set (map fst (roles r)) =
      {Raja, Mantri, Chor, Sipahi}"
    using alist_image [of "roles r"] assms(4) rk sv by simp
  ultimately have bij: "bij_betw (\<lambda>p. the (map_of (roles r) p)) (set (map pid (players room)))
       {Raja, Mantri, Chor, Sipahi}"
    unfolding bij_betw_def rk by simp
  from len d1 bij pk d2 show ?thesis
    by (intro conjI) assumption+
qed

theorem round_roles_bijection_witness:
  "reachable room_of_four \<and> map_of room_of_four ''r1'' = Some the_room_of_four \<and>
   rnd the_room_of_four = Some round_of_four \<and>
   distinct (map pid (players the_room_of_four)) \<and>
   dom (map_of (roles round_of_four)) = set (map pid (players the_room_of_four)) \<and>
   bij_betw (\<lambda>p. the (map_of (roles round_of_four) p)) (set (map pid (players the_room_of_four)))
     {Raja, Mantri, Chor, Sipahi} \<and>
   dom (map_of (points round_of_four)) = dom (map_of (roles round_of_four))"
  using round_roles_bijection [OF reachable_room_of_four lookup_room_of_four
      rnd_the_room_of_four distinct_players_of_four]
    reachable_room_of_four lookup_room_of_four rnd_the_room_of_four distinct_players_of_four
  by simp

section \<open>The leaderboard\<close>

lemma mset_sort_reverse: "mset (sort_reverse key xs) = mset xs"
  by (simp add: sort_reverse_def)

lemma sorted_sort_reverse: "sorted_wrt (\<lambda>a b. key a \<ge> key b) (sort_reverse key xs)"
proof -
  have "sorted (map key (sort_key key (rev xs)))"
    by (rule sorted_sort_key)
  then have "sorted_wrt (\<lambda>a b. key a \<le> key b) (sort_key key (rev xs))"
    by (simp add: sorted_wrt_map)
  then show ?thesis
    by (simp add: sort_reverse_def sorted_wrt_rev)
qed

lemma stable_sort_reverse:
  "filter (\<lambda>e. key e = k) (sort_reverse key xs) = filter (\<lambda>e. key e = k) xs"
  by (simp add: sort_reverse_def sort_key_stable flip: rev_filter)

lemma board_loop_total:
  "set (map pid ps) \<subseteq> set (map fst scs) \<Longrightarrow>
    \<exists>entries. board_loop ps scs = Inr entries \<and>
      list_all2 (\<lambda>p e. fst e = pname p \<and> map_of scs (pid p) = Some (snd e)) ps entries"
proof (induction ps)
  case Nil
  then show ?case by simp
next
  case (Cons p ps)
  then obtain entries where e: "board_loop ps scs = Inr entries"
    "list_all2 (\<lambda>p e. fst e = pname p \<and> map_of scs (pid p) = Some (snd e)) ps entries"
    by auto
  from Cons.prems obtain s where "map_of scs (pid p) = Some s"
    by (cases "map_of scs (pid p)") (auto simp: map_of_keys_None)
  with e show ?case by simp
qed

text \<open>
  C8: for every room in which each roster player has a cumulative score, whatever the
  scores are, \<^verbatim>\<open>leaderboard\<close> returns a list \<open>board\<close> that is a rearrangement of
  \<open>entries\<close>, the (name, score) pairs of the roster in roster order, one per player; the
  board is sorted by score, descending; and for every score \<open>k\<close> the entries with score \<open>k\<close>
  stand on the board in roster order.
\<close>

theorem leaderboard_sorted_stable:
  assumes "map_of rooms room_id = Some room"
    and "set (map pid (players room)) \<subseteq> set (map fst (scores room))"
  shows "\<exists>entries board.
     list_all2 (\<lambda>p e. fst e = pname p \<and> map_of (scores room) (pid p) = Some (snd e))
       (players room) entries \<and>
     leaderboard rooms room_id = Inr board \<and>
     mset board = mset entries \<and>
     sorted_wrt (\<lambda>a b. snd a \<ge> snd b) board \<and>
     (\<forall>k. filter (\<lambda>e. snd e = k) board = filter (\<lambda>e. snd e = k) entries)"
proof -
  from board_loop_total [OF assms(2)] obtain entries where
    e: "board_loop (players room) (scores room) = Inr entries"
    and l: "list_all2 (\<lambda>p e. fst e = pname p \<and> map_of (scores room) (pid p) = Some (snd e))
       (players room) entries"
    by blast
  from e assms(1) have "leaderboard rooms room_id = Inr (sort_reverse snd entries)"
    by (simp add: leaderboard_def)
  with l show ?thesis
    using mset_sort_reverse [of snd entries] sorted_sort_reverse [of snd entries]
      stable_sort_reverse [of snd _ entries]
    by blast
qed

lemma leaderboard_tied:
  "leaderboard tied_rooms ''r1'' =
     Inr [(''Bala'', 800), (''Dev'', 800), (''Asha'', 500), (''Chitra'', 500)]"
  by (simp add: tied_rooms_def tied_room_def leaderboard_def the_room_of_four_def
      players_of_four_def sort_reverse_def)

theorem leaderboard_sorted_stable_witness:
  "map_of tied_rooms ''r1'' = Some tied_room \<and>
   set (map pid (players tied_room)) \<subseteq> set (map fst (scores tied_room)) \<and>
   (\<exists>board. leaderboard tied_rooms ''r1'' = Inr board \<and>
      sorted_wrt (\<lambda>a b. snd a \<ge> snd b) board \<and>
      filter (\<lambda>e. snd e = 800) board = [(''Bala'', 800), (''Dev'', 800)])"
proof -
  have look: "map_of tied_rooms ''r1'' = Some tied_room"
    by (simp add: tied_rooms_def)
  have sub: "set (map pid (players tied_room)) \<subseteq> set (map fst (scores tied_room))"
    by (simp add: tied_room_def the_room_of_four_def players_of_four_def)
  from leaderboard_sorted_stable [OF look sub] obtain entries board where
    l: "list_all2 (\<lambda>p e. fst e = pname p \<and> map_of (scores tied_room) (pid p) = Some (snd e))
       (players tied_room) entries"
    and b: "leaderboard tied_rooms ''r1'' = Inr board"
    and s: "sorted_wrt (\<lambda>a b. snd a \<ge> snd b) board"
    and f: "\<forall>k. filter (\<lambda>e. snd e = k) board = filter (\<lambda>e. snd e = k) entries"
    by blast
  from l have "entries = [(''Asha'', 500), (''Bala'', 800), (''Chitra'', 500), (''Dev'', 800)]"
    by (auto simp: tied_room_def the_room_of_four_def players_of_four_def list_all2_Cons1)
  with f have "filter (\<lambda>e. snd e = 800) board = [(''Bala'', 800), (''Dev'', 800)]"
    by simp
  with look sub b s show ?thesis by blast
qed

section \<open>A failing request changes nothing\<close>

text \<open>
  C9: in a reachable registry, a \<^verbatim>\<open>join_room\<close> or \<^verbatim>\<open>guess_chor\<close> request that fails, with
  an error response or with an exception, leaves the whole registry, and so the room's
  roster, round and scores, exactly as it was before the request.
\<close>

theorem failing_call_leaves_rooms:
  assumes "reachable rooms"
  shows "(fst (join_room rooms roomId playerName player_id shuffled) = Inl e \<longrightarrow>
            snd (join_room rooms roomId playerName player_id shuffled) = rooms) \<and>
         (fst (guess_chor rooms room_id mantri_id guessed_id) = Inl e' \<longrightarrow>
            snd (guess_chor rooms room_id mantri_id guessed_id) = rooms)"
proof (intro conjI impI)
  assume "fst (join_room rooms roomId playerName player_id shuffled) = Inl e"
  then show "snd (join_room rooms roomId playerName player_id shuffled) = rooms"
    by (rule join_room_failure_unchanged)
next
  assume "fst (guess_chor rooms room_id mantri_id guessed_id) = Inl e'"
  with reachable_inv [OF assms]
  show "snd (guess_chor rooms room_id mantri_id guessed_id) = rooms"
    by (intro guess_chor_failure_unchanged)
qed

theorem failing_call_leaves_rooms_witness:
  "reachable room_of_four \<and>
   fst (join_room room_of_four ''r1'' ''Esha'' ''e'' [Raja, Mantri, Chor, Sipahi]) = Inl RoomFull \<and>
   snd (join_room room_of_four ''r1'' ''Esha'' ''e'' [Raja, Mantri, Chor, Sipahi]) = room_of_four \<and>
   fst (guess_chor room_of_four ''r1'' ''a'' ''c'') = Inl OnlyMantriCanGuess \<and>
   snd (guess_chor room_of_four ''r1'' ''a'' ''c'') = room_of_four"
  using failing_call_leaves_rooms [OF reachable_room_of_four, of "''r1''" "''Esha''" "''e''"
      "[Raja, Mantri, Chor, Sipahi]" RoomFull "''r1''" "''a''" "''c''" OnlyMantriCanGuess]
    reachable_room_of_four
  by (simp add: fifth_join raja_guesses)

section \<open>The frame of a guess\<close>

text \<open>
  C10: for every registry and every request, \<^verbatim>\<open>guess_chor\<close> keeps the registry's room
  ids, leaves every other room as it was, and in the room addressed keeps the roster
  (identifiers, names and order), the round's role dictionary, and the keys of the round
  points and of the cumulative scores; so all it can change are the values of the round
  points and of the scores and the round's \<open>completed\<close> and \<open>guess\<close> fields.
\<close>

theorem guess_chor_frame:
  "map fst (snd (guess_chor rooms room_id mantri_id guessed_id)) = map fst rooms \<and>
   (\<forall>k. k \<noteq> room_id \<longrightarrow>
      map_of (snd (guess_chor rooms room_id mantri_id guessed_id)) k = map_of rooms k) \<and>
   map_option guess_frame (map_of (snd (guess_chor rooms room_id mantri_id guessed_id)) room_id) =
     map_option guess_frame (map_of rooms room_id)"
proof (intro conjI allI impI)
  from guess_chor_registry [of rooms room_id mantri_id guessed_id]
  show "map fst (snd (guess_chor rooms room_id mantri_id guessed_id)) = map fst rooms"
    by (auto simp: update_present_keys)
next
  fix k
  assume "k \<noteq> room_id"
  with guess_chor_registry [of rooms room_id mantri_id guessed_id]
  show "map_of (snd (guess_chor rooms room_id mantri_id guessed_id)) k = map_of rooms k"
    by (auto simp: update_conv')
next
  show "map_option guess_frame (map_of (snd (guess_chor rooms room_id mantri_id guessed_id)) room_id) =
     map_option guess_frame (map_of rooms room_id)"
    by (rule guess_chor_keeps_frame)
qed

theorem guess_chor_frame_witness:
  "''r2'' \<noteq> ''r1'' \<and>
   map fst (snd (guess_chor room_of_four ''r1'' ''b'' ''c'')) = map fst room_of_four \<and>
   map_of (snd (guess_chor room_of_four ''r1'' ''b'' ''c'')) ''r2'' = map_of room_of_four ''r2'' \<and>
   map_option guess_frame (map_of (snd (guess_chor room_of_four ''r1'' ''b'' ''c'')) ''r1'') =
     Some (players_of_four, Some roles_of_four, Some [''a'', ''b'', ''c'', ''d''],
           [''a'', ''b'', ''c'', ''d''])"
proof -
  have ne: "''r2'' \<noteq> ''r1''" by simp
  have fr: "map_option guess_frame (map_of room_of_four ''r1'') =
     Some (players_of_four, Some roles_of_four, Some [''a'', ''b'', ''c'', ''d''],
           [''a'', ''b'', ''c'', ''d''])"
    by (simp add: room_of_four_eq the_room_of_four_def round_of_four_def guess_frame_def)
  from guess_chor_frame [of room_of_four "''r1''" "''b''" "''c''"] ne fr show ?thesis
    by simp
qed


end
